theory Spec2Isabelle
  imports Complex_Main "HOL-Library.Word"
begin

section \<open>Data model\<close>

text \<open>
  The feature processors of \<^verbatim>\<open>feature_processor_instances.cpp\<close> work on an
  \<^verbatim>\<open>ner_sentence\<close>. The header that declares the sentence, the feature type and the
  sentinels is not part of the sources under study, so

  \<^item> a feature id (\<^verbatim>\<open>ner_feature\<close>, an \<^verbatim>\<open>unsigned\<close>) is a 32-bit word: the
    arithmetic \<^verbatim>\<open>_feature + _w - int(I)\<close> is unsigned and wraps;
  \<^item> the sentinels \<^verbatim>\<open>ner_feature_unknown\<close>, \<^verbatim>\<open>bilou_type_unknown\<close>,
    \<^verbatim>\<open>entity_type_unknown\<close> and the index \<^verbatim>\<open>bilou_type_U\<close> are parameters
    of the functions that use them (named \<open>unk\<close>, \<open>bilou_type_unknown\<close>, ...): every theorem
    holds for each value they may have;
  \<^item> the interner \<^verbatim>\<open>lookup(key, total_features)\<close> of the base class is a parameter
    \<open>lookup\<close> too: a function from the key and the interner's state (its table and the
    counter behind \<^verbatim>\<open>total_features\<close>) to the feature id and the new state;
  \<^item> the values of type \<^verbatim>\<open>int\<close> (the window, the token index after \<^verbatim>\<open>int(I)\<close>,
    the loop variable \<^verbatim>\<open>_w\<close>) are mathematical integers: signed overflow has no
    defined behaviour in the source, so the model is the program wherever these values fit
    in 32 bits, that is for sentences shorter than \<open>2^31\<close> tokens and windows far below.
\<close>

type_synonym ner_feature = "32 word"
type_synonym entity_type = "32 word"

record ner_word =
  form :: string
  raw_lemma :: string
  lemma_id :: string
  lemma_comments :: string
  tag :: string

text \<open>An entry of \<^verbatim>\<open>previous_stage\<close>: the two numbers that
  \<^verbatim>\<open>append_encoded\<close> receives as \<^verbatim>\<open>int\<close>.\<close>

record bilou_entity =
  ps_bilou :: int
  ps_entity :: int

text \<open>An entry of \<^verbatim>\<open>probabilities\<close>: \<^verbatim>\<open>local.bilou\<close> is the array of the five
  BILOU slots, each a probability with an entity type; the source only ever stores the
  constants \<^verbatim>\<open>0.\<close> and \<^verbatim>\<open>1.\<close> there.\<close>

record probability_info =
  probability :: real
  entity :: entity_type

record bilou_probabilities =
  bilou :: "probability_info list"

record ner_probabilities =
  local :: bilou_probabilities
  local_filled :: bool

text \<open>The sentence. \<^verbatim>\<open>size\<close> is a field of its own (named \<open>sent_size\<close> here): the
  vectors are at least that long.\<close>

record ner_sentence =
  sent_size :: nat
  words :: "ner_word list"
  features :: "ner_feature list list"
  previous_stage :: "bilou_entity list"
  probabilities :: "ner_probabilities list"

text \<open>The vectors of a sentence hold at least \<^verbatim>\<open>size\<close> entries; the source indexes
  them without a check, so this is the precondition of every \<^verbatim>\<open>process_sentence\<close>.\<close>

definition wf_sentence :: "ner_sentence \<Rightarrow> bool" where
  "wf_sentence s \<longleftrightarrow>
     sent_size s \<le> length (words s) \<and> sent_size s \<le> length (features s) \<and>
     sent_size s \<le> length (previous_stage s) \<and> sent_size s \<le> length (probabilities s)"

section \<open>The window emission primitive\<close>

text \<open>
  \<^verbatim>\<open>sentence.features[_w].emplace_back(_feature + _w - int(I))\<close>: one step of the loop
  of \<^verbatim>\<open>apply_in_range\<close>.
\<close>

definition emplace_feature :: "int \<Rightarrow> ner_feature \<Rightarrow> int \<Rightarrow> ner_sentence \<Rightarrow> ner_sentence" where
  "emplace_feature I feature w s =
     s\<lparr>features := (features s)[nat w := features s ! nat w @ [feature + word_of_int w - word_of_int I]]\<rparr>"

text \<open>
  \<^verbatim>\<open>apply_in_range(I, Feature, Left, Right)\<close>: the loop variable runs from
  \<^verbatim>\<open>int(I) + Left < 0 ? 0 : int(I) + Left\<close> up to, and excluding,
  \<^verbatim>\<open>int(I) + Right + 1 < int(sentence.size) ? int(I) + Right + 1 : sentence.size\<close>.
\<close>

definition apply_in_range ::
    "ner_feature \<Rightarrow> ner_sentence \<Rightarrow> int \<Rightarrow> ner_feature \<Rightarrow> int \<Rightarrow> int \<Rightarrow> ner_sentence" where
  "apply_in_range unk sentence I feature left right =
     (if feature \<noteq> unk then
        fold (emplace_feature I feature)
          [(if I + left < 0 then 0 else I + left) ..
           (if I + right + 1 < int (sent_size sentence) then I + right + 1
            else int (sent_size sentence)) - 1]
          sentence
      else sentence)"

text \<open>\<^verbatim>\<open>apply_in_window(I, Feature)\<close> is \<^verbatim>\<open>apply_in_range(I, Feature, -window, window)\<close>.\<close>

definition apply_in_window ::
    "ner_feature \<Rightarrow> int \<Rightarrow> ner_sentence \<Rightarrow> int \<Rightarrow> ner_feature \<Rightarrow> ner_sentence" where
  "apply_in_window unk window sentence I feature =
     apply_in_range unk sentence I feature (- window) window"



text \<open>\<^verbatim>\<open>c_str()\<close>: the bytes of a string up to the first NUL.\<close>

definition c_str :: "string \<Rightarrow> string" where
  "c_str str = takeWhile (\<lambda>c. c \<noteq> CHR 0x00) str"

section \<open>Form, Lemma, RawLemma, Tag and CzechLemmaTerm\<close>







section \<open>FormCapitalization and RawLemmaCapitalization\<close>

text \<open>
  unilib is not among the sources. \<open>decode str\<close> stands for the code points that the
  successive calls \<^verbatim>\<open>utf8::decode(form)\<close> return on \<^verbatim>\<open>str.c_str()\<close> before the
  first zero; \<open>Lut chr\<close> and \<open>Ll chr\<close> stand for
  \<^verbatim>\<open>unicode::category(chr) & unicode::Lut\<close> and \<^verbatim>\<open>unicode::category(chr) & unicode::Ll\<close>.
  One round of the inner loop, on \<^verbatim>\<open>(first, was_upper, was_lower)\<close> and the sentence:
\<close>

definition capitalization_step ::
    "ner_feature \<Rightarrow> int \<Rightarrow> (nat \<Rightarrow> bool) \<Rightarrow> (nat \<Rightarrow> bool) \<Rightarrow> nat \<Rightarrow> ner_feature \<Rightarrow> nat \<Rightarrow>
     bool \<times> bool \<times> bool \<times> ner_sentence \<Rightarrow> bool \<times> bool \<times> bool \<times> ner_sentence" where
  "capitalization_step unk window Lut Ll i fst_cap chr st =
     (case st of (first, was_upper, was_lower, s) \<Rightarrow>
        (let was_upper = was_upper \<or> Lut chr;
             was_lower = was_lower \<or> Ll chr
         in (False, was_upper, was_lower,
             if first \<and> was_upper then apply_in_window unk window s (int i) fst_cap else s)))"

definition capitalization_word ::
    "ner_feature \<Rightarrow> int \<Rightarrow> (nat \<Rightarrow> bool) \<Rightarrow> (nat \<Rightarrow> bool) \<Rightarrow> ner_feature \<Rightarrow> ner_feature \<Rightarrow>
     ner_feature \<Rightarrow> nat list \<Rightarrow> nat \<Rightarrow> ner_sentence \<Rightarrow> ner_sentence" where
  "capitalization_word unk window Lut Ll fst_cap all_cap mixed_cap chrs i s =
     (case fold (capitalization_step unk window Lut Ll i fst_cap) chrs (True, False, False, s) of
        (first, was_upper, was_lower, s) \<Rightarrow>
          (let s = (if was_upper \<and> \<not> was_lower then apply_in_window unk window s (int i) all_cap
                    else s)
           in if was_upper \<and> was_lower then apply_in_window unk window s (int i) mixed_cap
              else s))"

definition capitalization_process_sentence ::
    "(ner_word \<Rightarrow> string) \<Rightarrow> (string \<Rightarrow> nat list) \<Rightarrow> (nat \<Rightarrow> bool) \<Rightarrow> (nat \<Rightarrow> bool) \<Rightarrow>
     (string \<Rightarrow> 'm \<Rightarrow> ner_feature \<times> 'm) \<Rightarrow> ner_feature \<Rightarrow> int \<Rightarrow>
     ner_sentence \<Rightarrow> 'm \<Rightarrow> ner_sentence \<times> 'm" where
  "capitalization_process_sentence field decode Lut Ll lookup unk window sentence m =
     (case lookup ''f'' m of (fst_cap, m1) \<Rightarrow>
      case lookup ''a'' m1 of (all_cap, m2) \<Rightarrow>
      case lookup ''m'' m2 of (mixed_cap, m3) \<Rightarrow>
        (fold (\<lambda>i s. capitalization_word unk window Lut Ll fst_cap all_cap mixed_cap
                        (decode (field (words s ! i))) i s)
           [0..<sent_size sentence] sentence, m3))"

definition form_capitalization_process_sentence where
  "form_capitalization_process_sentence = capitalization_process_sentence form"


section \<open>NumericTimeValue\<close>

text \<open>
  The digit loop of \<^verbatim>\<open>number_time_value::process_sentence\<close>, on the bytes left of
  \<^verbatim>\<open>form\<close>: it stops at the end of the string or at the first byte that is no ASCII
  digit (the test \<^verbatim>\<open>*form < '0' || *form > '9'\<close> holds for every other byte, whatever
  the signedness of \<^verbatim>\<open>char\<close>) and returns \<^verbatim>\<open>digit\<close>, \<^verbatim>\<open>num\<close> and the bytes
  left. \<^verbatim>\<open>num\<close> is an \<^verbatim>\<open>unsigned\<close>: \<^verbatim>\<open>num * 10 + *form - '0'\<close> wraps modulo
  \<open>2^32\<close>.
\<close>

fun digit_run :: "bool \<Rightarrow> 32 word \<Rightarrow> string \<Rightarrow> bool \<times> 32 word \<times> string" where
  "digit_run digit num [] = (digit, num, [])"
| "digit_run digit num (c # cs) =
     (if (of_char c :: nat) < of_char CHR ''0'' \<or> (of_char c :: nat) > of_char CHR ''9''
      then (digit, num, c # cs)
      else digit_run True (num * 10 + of_nat (of_char c) - of_nat (of_char CHR ''0'')) cs)"

text \<open>The body of the loop over the tokens, with the six features already looked up.\<close>

definition number_time_value_word ::
    "ner_feature \<Rightarrow> int \<Rightarrow> ner_feature \<Rightarrow> ner_feature \<Rightarrow> ner_feature \<Rightarrow> ner_feature \<Rightarrow>
     ner_feature \<Rightarrow> ner_feature \<Rightarrow> nat \<Rightarrow> ner_sentence \<Rightarrow> ner_sentence" where
  "number_time_value_word unk window hour minute time day month year i s =
     (case digit_run False 0 (c_str (form (words s ! i))) of (digit, num, rest) \<Rightarrow>
        (let s = (if digit \<and> rest = [] then
                    (let s = (if num < 24 then apply_in_window unk window s (int i) hour else s);
                         s = (if num < 60 then apply_in_window unk window s (int i) minute else s);
                         s = (if num \<ge> 1 \<and> num \<le> 31 then apply_in_window unk window s (int i) day
                              else s);
                         s = (if num \<ge> 1 \<and> num \<le> 12 then apply_in_window unk window s (int i) month
                              else s)
                     in if num \<ge> 1000 \<and> num \<le> 2200 then apply_in_window unk window s (int i) year
                        else s)
                  else s)
         in if digit \<and> num < 24 \<and> (case rest of [] \<Rightarrow> False | c # cs \<Rightarrow> c = CHR ''.'' \<or> c = CHR '':'')
            then (case digit_run False 0 (tl rest) of (digit, num, rest) \<Rightarrow>
                    if digit \<and> rest = [] \<and> num < 60 then apply_in_window unk window s (int i) time
                    else s)
            else s))"

definition number_time_value_process_sentence ::
    "(string \<Rightarrow> 'm \<Rightarrow> ner_feature \<times> 'm) \<Rightarrow> ner_feature \<Rightarrow> int \<Rightarrow>
     ner_sentence \<Rightarrow> 'm \<Rightarrow> ner_sentence \<times> 'm" where
  "number_time_value_process_sentence lookup unk window sentence m =
     (case lookup ''H'' m of (hour, m1) \<Rightarrow>
      case lookup ''M'' m1 of (minute, m2) \<Rightarrow>
      case lookup ''t'' m2 of (time, m3) \<Rightarrow>
      case lookup ''d'' m3 of (day, m4) \<Rightarrow>
      case lookup ''m'' m4 of (month, m5) \<Rightarrow>
      case lookup ''y'' m5 of (year, m6) \<Rightarrow>
        (fold (number_time_value_word unk window hour minute time day month year)
           [0..<sent_size sentence] sentence, m6))"

section \<open>PreviousStage\<close>

text \<open>
  \<^verbatim>\<open>append_encoded(str, value)\<close>: a minus sign for a negative value, then the hexadecimal
  digits of its magnitude, lowest first; nothing for zero. On the magnitude,
  \<^verbatim>\<open>value & 0xF\<close> is \<open>v mod 16\<close> and \<^verbatim>\<open>value >>= 4\<close> is \<open>v div 16\<close>.
\<close>

fun hex_digits :: "nat \<Rightarrow> string" where
  "hex_digits v =
     (if v = 0 then [] else ''0123456789abcdef'' ! (v mod 16) # hex_digits (v div 16))"

declare hex_digits.simps [simp del]

definition append_encoded :: "string \<Rightarrow> int \<Rightarrow> string" where
  "append_encoded str v =
     (if v < 0 then str @ ''-'' @ hex_digits (nat (- v)) else str @ hex_digits (nat v))"

definition previous_stage_key :: "bilou_entity \<Rightarrow> string" where
  "previous_stage_key e = append_encoded (append_encoded [] (ps_bilou e) @ '' '') (ps_entity e)"

definition previous_stage_process_sentence ::
    "int \<Rightarrow> (string \<Rightarrow> 'm \<Rightarrow> ner_feature \<times> 'm) \<Rightarrow> ner_feature \<Rightarrow> int \<Rightarrow>
     ner_sentence \<Rightarrow> 'm \<Rightarrow> ner_sentence \<times> 'm" where
  "previous_stage_process_sentence bilou_type_unknown lookup unk window sentence m =
     fold (\<lambda>i (s, m).
             if ps_bilou (previous_stage s ! i) \<noteq> bilou_type_unknown
             then (case lookup (previous_stage_key (previous_stage s ! i)) m of
                     (f, m') \<Rightarrow> (apply_in_range unk s (int i) f 1 window, m'))
             else (s, m))
       [0..<sent_size sentence] (sentence, m)"

section \<open>URLEmailDetector\<close>

text \<open>The result type of \<^verbatim>\<open>url_detector::detect\<close>; the detector itself is the
  parameter \<open>detect\<close>.\<close>

datatype url_type = NO_URL | URL | EMAIL

definition url_email_detector_word ::
    "(string \<Rightarrow> url_type) \<Rightarrow> entity_type \<Rightarrow> nat \<Rightarrow> entity_type \<Rightarrow> entity_type \<Rightarrow>
     nat \<Rightarrow> ner_sentence \<Rightarrow> ner_sentence" where
  "url_email_detector_word detect entity_type_unknown bilou_type_U url email i s =
     (let type = detect (form (words s ! i)) in
      if type = NO_URL \<or> local_filled (probabilities s ! i) then s
      else
        (let zeroed = map (\<lambda>b. b\<lparr>probability := 0, entity := entity_type_unknown\<rparr>)
                        (bilou (local (probabilities s ! i)));
             slots = zeroed[bilou_type_U := (zeroed ! bilou_type_U)
                        \<lparr>probability := 1, entity := (if type = EMAIL then email else url)\<rparr>]
         in s\<lparr>probabilities := (probabilities s)
                  [i := (probabilities s ! i)\<lparr>local := (local (probabilities s ! i))\<lparr>bilou := slots\<rparr>,
                                              local_filled := True\<rparr>]\<rparr>))"

definition url_email_detector_process_sentence ::
    "(string \<Rightarrow> url_type) \<Rightarrow> entity_type \<Rightarrow> nat \<Rightarrow> entity_type \<Rightarrow> entity_type \<Rightarrow>
     ner_sentence \<Rightarrow> ner_sentence" where
  "url_email_detector_process_sentence detect entity_type_unknown bilou_type_U url email sentence =
     fold (url_email_detector_word detect entity_type_unknown bilou_type_U url email)
       [0..<sent_size sentence] sentence"

text \<open>For the statement about \<^verbatim>\<open>url_email_detector\<close>: the five slots, and the entry
  \<^verbatim>\<open>probabilities[i]\<close>, that the specification describes for a token after
  \<^verbatim>\<open>process_sentence\<close>.\<close>

definition url_email_slots ::
    "entity_type \<Rightarrow> nat \<Rightarrow> entity_type \<Rightarrow> probability_info list \<Rightarrow> probability_info list" where
  "url_email_slots entity_type_unknown bilou_type_U e slots =
     (map (\<lambda>b. \<lparr>probability = 0, entity = entity_type_unknown\<rparr>) slots)
       [bilou_type_U := \<lparr>probability = 1, entity = e\<rparr>]"

definition url_email_entry ::
    "(string \<Rightarrow> url_type) \<Rightarrow> entity_type \<Rightarrow> nat \<Rightarrow> entity_type \<Rightarrow> entity_type \<Rightarrow>
     ner_sentence \<Rightarrow> nat \<Rightarrow> ner_probabilities" where
  "url_email_entry detect entity_type_unknown bilou_type_U url email s i =
     (if i < sent_size s \<and> detect (form (words s ! i)) \<noteq> NO_URL \<and> \<not> local_filled (probabilities s ! i)
      then \<lparr>local = \<lparr>bilou = url_email_slots entity_type_unknown bilou_type_U
                                (if detect (form (words s ! i)) = EMAIL then email else url)
                                (bilou (local (probabilities s ! i)))\<rparr>,
            local_filled = True\<rparr>
      else probabilities s ! i)"

section \<open>CzechAddContainers\<close>

text \<open>A named entity; \<^verbatim>\<open>start\<close> and \<^verbatim>\<open>length\<close> are of type \<^verbatim>\<open>size_t\<close>, 64-bit
  words here, whose sums and differences wrap.\<close>

record named_entity =
  start :: "64 word"
  len :: "64 word"
  type :: string

text \<open>The loops \<^verbatim>\<open>while (j < entities.size() && entities[j].start ==
  entities[j-1].start + entities[j-1].length && entities[j].type.compare(t) == 0) j++\<close>.\<close>

function scan_adjacent :: "named_entity list \<Rightarrow> string \<Rightarrow> nat \<Rightarrow> nat" where
  "scan_adjacent entities t j =
     (if j < length entities \<and>
         start (entities ! j) = start (entities ! (j - 1)) + len (entities ! (j - 1)) \<and>
         type (entities ! j) = t
      then scan_adjacent entities t (j + 1) else j)"
  by pat_completeness auto
termination
  by (relation "measure (\<lambda>(entities, t, j). length entities - j)") auto

declare scan_adjacent.simps [simp del]

text \<open>The body of the loop of \<^verbatim>\<open>process_entities\<close> for the entity \<open>i\<close>: the three
  triggers in the order of the source, then the entity itself.\<close>

definition add_containers_at :: "named_entity list \<Rightarrow> nat \<Rightarrow> named_entity list \<Rightarrow> named_entity list" where
  "add_containers_at entities i buffer =
     (let buffer =
        (if type (entities ! i) = ''pf'' \<and>
            (i = 0 \<or> start (entities ! (i - 1)) + len (entities ! (i - 1)) < start (entities ! i) \<or>
             type (entities ! (i - 1)) \<noteq> ''pf'')
         then (let j = scan_adjacent entities ''pf'' (i + 1) in
               if j < length entities \<and>
                  start (entities ! j) = start (entities ! (j - 1)) + len (entities ! (j - 1)) \<and>
                  type (entities ! j) = ''ps''
               then (let j = scan_adjacent entities ''ps'' (j + 1) in
                     buffer @ [\<lparr>start = start (entities ! i),
                                len = start (entities ! (j - 1)) + len (entities ! (j - 1)) -
                                      start (entities ! i),
                                type = ''P''\<rparr>])
               else buffer)
         else buffer);
       buffer =
        (if type (entities ! i) = ''td'' \<and> i + 1 < length entities \<and>
            start (entities ! (i + 1)) = start (entities ! i) + len (entities ! i) \<and>
            type (entities ! (i + 1)) = ''tm''
         then (let j = i + 2;
                   j = (if j < length entities \<and>
                           start (entities ! j) = start (entities ! (j - 1)) + len (entities ! (j - 1)) \<and>
                           type (entities ! j) = ''ty''
                        then j + 1 else j)
               in buffer @ [\<lparr>start = start (entities ! i),
                              len = start (entities ! (j - 1)) + len (entities ! (j - 1)) -
                                    start (entities ! i),
                              type = ''T''\<rparr>])
         else buffer);
       buffer =
        (if type (entities ! i) = ''tm'' \<and>
            (i = 0 \<or> start (entities ! (i - 1)) + len (entities ! (i - 1)) < start (entities ! i) \<or>
             type (entities ! (i - 1)) \<noteq> ''td'')
         then (if i + 1 < length entities \<and>
                  start (entities ! (i + 1)) = start (entities ! i) + len (entities ! i) \<and>
                  type (entities ! (i + 1)) = ''ty''
               then buffer @ [\<lparr>start = start (entities ! i),
                                len = start (entities ! (i + 1)) + len (entities ! (i + 1)) -
                                      start (entities ! i),
                                type = ''T''\<rparr>]
               else buffer)
         else buffer)
      in buffer @ [entities ! i])"

text \<open>\<^verbatim>\<open>process_entities\<close>: the buffer is cleared, filled by the loop, and replaces the
  entities when it is the longer. The result is the new value of \<^verbatim>\<open>entities\<close>.\<close>

definition process_entities :: "named_entity list \<Rightarrow> named_entity list" where
  "process_entities entities =
     (let buffer = fold (add_containers_at entities) [0..<length entities] []
      in if length buffer > length entities then buffer else entities)"

section \<open>BrownClusters\<close>

text \<open>
  The state of a \<^verbatim>\<open>brown_clusters\<close> processor: the table \<^verbatim>\<open>map\<close> of the base class
  (from forms to cluster ids) and the clusters. The two tables local to \<^verbatim>\<open>parse\<close>,
  \<^verbatim>\<open>cluster_map\<close> and \<^verbatim>\<open>prefixes_map\<close>, are association lists with distinct keys,
  so that \<^verbatim>\<open>prefixes_map.size()\<close> is the length of the list.
\<close>

record brown_clusters =
  bc_map :: "string \<rightharpoonup> ner_feature"
  clusters :: "ner_feature list list"

text \<open>\<^verbatim>\<open>m.emplace(k, v)\<close> on such a list: the new list, the value now stored under
  \<open>k\<close>, and whether the pair was inserted.\<close>

definition emplace :: "('k \<times> 'v) list \<Rightarrow> 'k \<Rightarrow> 'v \<Rightarrow> ('k \<times> 'v) list \<times> 'v \<times> bool" where
  "emplace m k v = (case map_of m k of Some v' \<Rightarrow> (m, v', False) | None \<Rightarrow> (m @ [(k, v)], v, True))"

text \<open>The prefix lengths: \<open>None\<close> is \<^verbatim>\<open>string::npos\<close>, the entry for the whole string;
  \<open>parse_int\<close> is the parameter for \<^verbatim>\<open>utils/parse_int.h\<close>. \<open>None\<close> as result is the
  \<^verbatim>\<open>return false\<close> on a length that is not positive.\<close>

fun brown_substrings :: "(string \<Rightarrow> int) \<Rightarrow> string list \<Rightarrow> nat option list \<Rightarrow> nat option list option" where
  "brown_substrings parse_int [] substrings = Some substrings"
| "brown_substrings parse_int (arg # args) substrings =
     (let len = parse_int arg in
      if len \<le> 0 then None else brown_substrings parse_int args (substrings @ [Some (nat len)]))"

text \<open>One round of \<^verbatim>\<open>for (auto&& substring : substrings)\<close> for a new cluster: the
  prefix is interned with the centre of the next free band as its id, and the id stored
  under the prefix is appended to the last cluster.\<close>

definition brown_add_prefix ::
    "int \<Rightarrow> ner_feature \<Rightarrow> string \<Rightarrow> nat option \<Rightarrow>
     ner_feature list list \<times> (string \<times> ner_feature) list \<Rightarrow>
     ner_feature list list \<times> (string \<times> ner_feature) list" where
  "brown_add_prefix window total_features cluster substring st =
     (case st of (cls, prefixes_map) \<Rightarrow>
        if (case substring of None \<Rightarrow> True | Some n \<Rightarrow> n < length cluster) then
          (case emplace prefixes_map
                  (case substring of None \<Rightarrow> cluster | Some n \<Rightarrow> take n cluster)
                  (total_features + word_of_int (2 * window + 1) * of_nat (length prefixes_map) +
                   word_of_int window) of
             (prefixes_map', f, inserted) \<Rightarrow>
               (cls[length cls - 1 := cls ! (length cls - 1) @ [f]], prefixes_map'))
        else (cls, prefixes_map))"

record brown_parse_state =
  ps_map :: "string \<rightharpoonup> ner_feature"
  ps_clusters :: "ner_feature list list"
  cluster_map :: "(string \<times> 32 word) list"
  prefixes_map :: "(string \<times> ner_feature) list"

text \<open>One line of the cluster file; \<open>split\<close> is the parameter for \<^verbatim>\<open>utils/split.h\<close>.
  The boolean is false where the source returns false.\<close>

definition brown_parse_line ::
    "(string \<Rightarrow> char \<Rightarrow> string list) \<Rightarrow> int \<Rightarrow> ner_feature \<Rightarrow> nat option list \<Rightarrow> string \<Rightarrow>
     brown_parse_state \<Rightarrow> bool \<times> brown_parse_state" where
  "brown_parse_line split window total_features substrings line st =
     (let tokens = split line CHR 0x09 in
      if length tokens \<noteq> 2 then (False, st)
      else
        (let cluster = tokens ! 0; form = tokens ! 1;
             (st, cid) =
               (case map_of (cluster_map st) cluster of
                  Some cid \<Rightarrow> (st, cid)
                | None \<Rightarrow>
                    (let cid = of_nat (length (ps_clusters st));
                         (cls, pm) = fold (brown_add_prefix window total_features cluster) substrings
                                       (ps_clusters st @ [[]], prefixes_map st)
                     in (st\<lparr>ps_clusters := cls, prefixes_map := pm,
                             cluster_map := cluster_map st @ [(cluster, cid)]\<rparr>, cid)))
         in if ps_map st form \<noteq> None then (False, st)
            else (True, st\<lparr>ps_map := (ps_map st)(form \<mapsto> cid)\<rparr>)))"

fun brown_parse_lines ::
    "(string \<Rightarrow> char \<Rightarrow> string list) \<Rightarrow> int \<Rightarrow> ner_feature \<Rightarrow> nat option list \<Rightarrow> string list \<Rightarrow>
     brown_parse_state \<Rightarrow> bool \<times> brown_parse_state" where
  "brown_parse_lines split window total_features substrings [] st = (True, st)"
| "brown_parse_lines split window total_features substrings (line # lines) st =
     (case brown_parse_line split window total_features substrings line st of
        (False, st') \<Rightarrow> (False, st')
      | (True, st') \<Rightarrow> brown_parse_lines split window total_features substrings lines st')"

text \<open>
  \<^verbatim>\<open>brown_clusters::parse\<close>. \<open>base_parse\<close> is the parameter for
  \<^verbatim>\<open>feature_processor::parse\<close>, which acts on the table of the base class and on
  \<^verbatim>\<open>*total_features\<close>; \<open>open_file\<close> gives the lines that \<^verbatim>\<open>getline\<close> reads from a
  file, or \<open>None\<close> when it cannot be opened. The result is the returned boolean, the
  processor and \<^verbatim>\<open>*total_features\<close>.
\<close>

definition brown_clusters_parse ::
    "(int \<Rightarrow> (string \<rightharpoonup> ner_feature) \<Rightarrow> ner_feature \<Rightarrow> bool \<times> (string \<rightharpoonup> ner_feature) \<times> ner_feature) \<Rightarrow>
     (string \<Rightarrow> int) \<Rightarrow> (string \<Rightarrow> char \<Rightarrow> string list) \<Rightarrow> (string \<Rightarrow> string list option) \<Rightarrow>
     int \<Rightarrow> string list \<Rightarrow> brown_clusters \<Rightarrow> ner_feature \<Rightarrow> bool \<times> brown_clusters \<times> ner_feature" where
  "brown_clusters_parse base_parse parse_int split open_file window args this total_features =
     (case base_parse window (bc_map this) total_features of (ok, m, total_features) \<Rightarrow>
        let this = this\<lparr>bc_map := m\<rparr> in
        if \<not> ok then (False, this, total_features)
        else if length args < 1 then (False, this, total_features)
        else
          (case open_file (args ! 0) of
             None \<Rightarrow> (False, this, total_features)
           | Some lines \<Rightarrow>
               (case brown_substrings parse_int (tl args) [None] of
                  None \<Rightarrow> (False, this, total_features)
                | Some substrings \<Rightarrow>
                    (case brown_parse_lines split window total_features substrings lines
                            \<lparr>ps_map = bc_map this, ps_clusters = [], cluster_map = [],
                             prefixes_map = []\<rparr> of
                       (False, st) \<Rightarrow>
                         (False, \<lparr>bc_map = ps_map st, clusters = ps_clusters st\<rparr>, total_features)
                     | (True, st) \<Rightarrow>
                         (True, \<lparr>bc_map = ps_map st, clusters = ps_clusters st\<rparr>,
                          total_features +
                          word_of_int (2 * window + 1) * of_nat (length (prefixes_map st)))))))"

text \<open>\<^verbatim>\<open>brown_clusters::process_sentence\<close>: the body of the loop for the token \<open>i\<close>
  reads the cluster of the raw lemma at the index stored in the table.\<close>

definition brown_clusters_word ::
    "brown_clusters \<Rightarrow> ner_feature \<Rightarrow> int \<Rightarrow> nat \<Rightarrow> ner_sentence \<Rightarrow> ner_sentence" where
  "brown_clusters_word this unk window i s =
     (case bc_map this (raw_lemma (words s ! i)) of
        None \<Rightarrow> s
      | Some cid \<Rightarrow>
          fold (\<lambda>feature s. apply_in_window unk window s (int i) feature)
            (clusters this ! unat cid) s)"

definition brown_clusters_process_sentence ::
    "brown_clusters \<Rightarrow> ner_feature \<Rightarrow> int \<Rightarrow> ner_sentence \<Rightarrow> ner_sentence" where
  "brown_clusters_process_sentence this unk window sentence =
     fold (brown_clusters_word this unk window) [0..<sent_size sentence] sentence"

section \<open>Gazetteers\<close>

definition role_U :: int where "role_U = 1"
definition role_L :: int where "role_L = 3"
definition role_I :: int where "role_I = 4"

record gazetteer_info =
  info_features :: "ner_feature list"
  prefix_of_longer :: bool

record gazetteers =
  gz_map :: "string \<rightharpoonup> ner_feature"
  gazetteers_info :: "gazetteer_info list"

text \<open>The tokens of a line after the loop that erases every token whose first byte is
  zero, that is every empty token (and every token that starts with a NUL byte).\<close>

definition gazetteers_tokens :: "(string \<Rightarrow> char \<Rightarrow> string list) \<Rightarrow> string \<Rightarrow> string list" where
  "gazetteers_tokens split line =
     filter (\<lambda>token. case token of [] \<Rightarrow> False | c # cs \<Rightarrow> c \<noteq> CHR 0x00) (split line CHR '' '')"

text \<open>One round of the loop over the tokens of a phrase: the prefix that ends at token
  \<open>i\<close> is interned; a proper prefix is marked \<^verbatim>\<open>prefix_of_longer\<close>, the whole phrase
  receives the feature \<^verbatim>\<open>*total_features + window\<close> unless it has it already.\<close>

definition gazetteers_add_prefix ::
    "int \<Rightarrow> ner_feature \<Rightarrow> string list \<Rightarrow> nat \<Rightarrow> string \<times> gazetteers \<Rightarrow> string \<times> gazetteers" where
  "gazetteers_add_prefix window total_features tokens i st =
     (case st of (gazetteer, this) \<Rightarrow>
        (let gazetteer = (if i \<noteq> 0 then gazetteer @ '' '' else gazetteer) @ tokens ! i;
             n = (of_nat (length (gazetteers_info this)) :: ner_feature);
             (m, second) = (case gz_map this gazetteer of
                              Some v \<Rightarrow> (gz_map this, v)
                            | None \<Rightarrow> ((gz_map this)(gazetteer \<mapsto> n), n));
             infos = (if second = n
                      then gazetteers_info this @ [\<lparr>info_features = [], prefix_of_longer = False\<rparr>]
                      else gazetteers_info this);
             info = infos ! unat second;
             info = (if i + 1 < length tokens then info\<lparr>prefix_of_longer := True\<rparr>
                     else if total_features + word_of_int window \<notin> set (info_features info)
                     then info\<lparr>info_features := info_features info @ [total_features + word_of_int window]\<rparr>
                     else info)
         in (gazetteer, \<lparr>gz_map = m, gazetteers_info = infos[unat second := info]\<rparr>)))"

text \<open>One line of a gazetteer file, on \<^verbatim>\<open>longest\<close> and the processor.\<close>

definition gazetteers_parse_line ::
    "(string \<Rightarrow> char \<Rightarrow> string list) \<Rightarrow> int \<Rightarrow> ner_feature \<Rightarrow> string \<Rightarrow> nat \<times> gazetteers \<Rightarrow>
     nat \<times> gazetteers" where
  "gazetteers_parse_line split window total_features line st =
     (case st of (longest, this) \<Rightarrow>
        (let tokens = gazetteers_tokens split line;
             longest = (if length tokens > longest then length tokens else longest)
         in (longest,
             snd (fold (gazetteers_add_prefix window total_features tokens) [0..<length tokens]
                    ([], this)))))"

text \<open>The number of roles reserved for a file:
  \<^verbatim>\<open>longest == 0 ? 0 : longest == 1 ? U+1 : longest == 2 ? L+1 : I+1\<close>.\<close>

definition gazetteers_slots :: "nat \<Rightarrow> int" where
  "gazetteers_slots longest =
     (if longest = 0 then 0 else if longest = 1 then role_U + 1
      else if longest = 2 then role_L + 1 else role_I + 1)"

text \<open>One file that could be opened, given as its lines: the body of the loop over the
  arguments, on the processor and \<^verbatim>\<open>*total_features\<close>.\<close>

definition gazetteers_parse_file ::
    "(string \<Rightarrow> char \<Rightarrow> string list) \<Rightarrow> int \<Rightarrow> string list \<Rightarrow> gazetteers \<times> ner_feature \<Rightarrow>
     gazetteers \<times> ner_feature" where
  "gazetteers_parse_file split window lines st =
     (case st of (this, total_features) \<Rightarrow>
        (case fold (gazetteers_parse_line split window total_features) lines (0, this) of
           (longest, this) \<Rightarrow>
             (this, total_features + word_of_int ((2 * window + 1) * gazetteers_slots longest))))"

fun gazetteers_parse_args ::
    "(string \<Rightarrow> char \<Rightarrow> string list) \<Rightarrow> (string \<Rightarrow> string list option) \<Rightarrow> int \<Rightarrow> string list \<Rightarrow>
     gazetteers \<times> ner_feature \<Rightarrow> bool \<times> gazetteers \<times> ner_feature" where
  "gazetteers_parse_args split open_file window [] st = (True, st)"
| "gazetteers_parse_args split open_file window (arg # args) st =
     (case open_file arg of
        None \<Rightarrow> (False, st)
      | Some lines \<Rightarrow>
          gazetteers_parse_args split open_file window args
            (gazetteers_parse_file split window lines st))"

text \<open>\<^verbatim>\<open>gazetteers::parse\<close>, with the parameters of \<open>brown_clusters_parse\<close>.\<close>

definition gazetteers_parse ::
    "(int \<Rightarrow> (string \<rightharpoonup> ner_feature) \<Rightarrow> ner_feature \<Rightarrow> bool \<times> (string \<rightharpoonup> ner_feature) \<times> ner_feature) \<Rightarrow>
     (string \<Rightarrow> char \<Rightarrow> string list) \<Rightarrow> (string \<Rightarrow> string list option) \<Rightarrow>
     int \<Rightarrow> string list \<Rightarrow> gazetteers \<Rightarrow> ner_feature \<Rightarrow> bool \<times> gazetteers \<times> ner_feature" where
  "gazetteers_parse base_parse split open_file window args this total_features =
     (case base_parse window (gz_map this) total_features of (ok, m, total_features) \<Rightarrow>
        if \<not> ok then (False, this\<lparr>gz_map := m\<rparr>, total_features)
        else gazetteers_parse_args split open_file window args
               (\<lparr>gz_map = m, gazetteers_info = []\<rparr>, total_features))"





section \<open>The processors and their dispatch\<close>




section \<open>Notions for the statements\<close>

text \<open>The ids that the interner returns for a list of keys looked up one after the other,
  and its state afterwards.\<close>

fun lookup_all :: "(string \<Rightarrow> 'm \<Rightarrow> ner_feature \<times> 'm) \<Rightarrow> string list \<Rightarrow> 'm \<Rightarrow> ner_feature list \<times> 'm" where
  "lookup_all lkp [] m = ([], m)"
| "lookup_all lkp (key # keys) m =
     (case lkp key m of (f, m') \<Rightarrow>
        (case lookup_all lkp keys m' of (fs, m'') \<Rightarrow> (f # fs, m'')))"

text \<open>
  The band of a centre \<open>c\<close> for the window \<open>w\<close> holds the ids \<open>c + k\<close> with
  \<open>- w \<le> k \<le> w\<close>. \<open>band_confined w C s s'\<close>: the sentence \<open>s'\<close> arises from \<open>s\<close> by
  appending to the feature vectors ids in the bands of the centres \<open>C\<close> only (the size, the
  words and the previous stage are the same).
\<close>

definition in_band :: "int \<Rightarrow> ner_feature set \<Rightarrow> ner_feature \<Rightarrow> bool" where
  "in_band w C y \<longleftrightarrow> (\<exists>c\<in>C. \<exists>k\<in>{- w..w}. y = c + word_of_int k)"

definition band_confined :: "int \<Rightarrow> ner_feature set \<Rightarrow> ner_sentence \<Rightarrow> ner_sentence \<Rightarrow> bool" where
  "band_confined w C s s' \<longleftrightarrow>
     sent_size s' = sent_size s \<and> words s' = words s \<and> previous_stage s' = previous_stage s \<and>
     length (features s') = length (features s) \<and>
     (\<forall>p<length (features s).
        \<exists>ys. features s' ! p = features s ! p @ ys \<and> (\<forall>y\<in>set ys. in_band w C y))"





section \<open>Data of the scenarios\<close>

text \<open>
  Concrete values for the parameters, for the sentences of the scenarios: an interner
  whose table is fixed (it returns the id stored under the key, or the sentinel), a word
  with a given form, and the sentence of a list of forms with empty feature vectors.
\<close>

definition table_lookup ::
    "(string \<times> ner_feature) list \<Rightarrow> ner_feature \<Rightarrow> string \<Rightarrow> unit \<Rightarrow> ner_feature \<times> unit" where
  "table_lookup table unk key m = (case map_of table key of Some f \<Rightarrow> (f, m) | None \<Rightarrow> (unk, m))"

definition word_of_form :: "string \<Rightarrow> ner_word" where
  "word_of_form f = \<lparr>form = f, raw_lemma = f, lemma_id = f, lemma_comments = [], tag = []\<rparr>"

definition sentence_of_forms :: "string list \<Rightarrow> ner_sentence" where
  "sentence_of_forms fs =
     \<lparr>sent_size = length fs, words = map word_of_form fs, features = map (\<lambda>f. []) fs,
      previous_stage = map (\<lambda>f. \<lparr>ps_bilou = - 1, ps_entity = - 1\<rparr>) fs,
      probabilities = map (\<lambda>f. \<lparr>local = \<lparr>bilou = replicate 5 \<lparr>probability = 0, entity = - 1\<rparr>\<rparr>,
                                  local_filled = False\<rparr>) fs\<rparr>"

definition numeric_table :: "(string \<times> ner_feature) list" where
  "numeric_table = [(''H'', 100), (''M'', 200), (''t'', 300), (''d'', 400), (''m'', 500), (''y'', 600)]"

definition numeric_forms :: "string list" where
  "numeric_forms = [''7'', ''30'', ''12:45'', ''1999'', ''2300'', ''13.70'']"

text \<open>For the capitalization scenario: a decoder and a category table that are right on
  the ASCII letters, all that the scenario needs.\<close>

definition ascii_decode :: "string \<Rightarrow> nat list" where
  "ascii_decode str = map of_char (c_str str)"

definition ascii_Lut :: "nat \<Rightarrow> bool" where
  "ascii_Lut chr \<longleftrightarrow> 65 \<le> chr \<and> chr \<le> 90"

definition ascii_Ll :: "nat \<Rightarrow> bool" where
  "ascii_Ll chr \<longleftrightarrow> 97 \<le> chr \<and> chr \<le> 122"

definition capital_table :: "(string \<times> ner_feature) list" where
  "capital_table = [(''f'', 100), (''a'', 200), (''m'', 300)]"

definition capital_forms :: "string list" where
  "capital_forms = [''Prague'', ''IS'', ''nice'', ''mIxEd'']"

definition email_detect :: "string \<Rightarrow> url_type" where
  "email_detect f = (if f = ''x@y.z'' then EMAIL else NO_URL)"

text \<open>The sentence of five tokens whose token 2 has the previous stage
  \<open>(bilou 0, entity 3)\<close>; the other tokens have the unknown one, \<open>- 1\<close>.\<close>

definition stage_sentence :: ner_sentence where
  "stage_sentence =
     (sentence_of_forms [''a'', ''b'', ''c'', ''d'', ''e''])
       \<lparr>previous_stage :=
          [\<lparr>ps_bilou = - 1, ps_entity = - 1\<rparr>, \<lparr>ps_bilou = - 1, ps_entity = - 1\<rparr>,
           \<lparr>ps_bilou = 0, ps_entity = 3\<rparr>,
           \<lparr>ps_bilou = - 1, ps_entity = - 1\<rparr>, \<lparr>ps_bilou = - 1, ps_entity = - 1\<rparr>]\<rparr>"

text \<open>For the Brown cluster scenario: the line of the cluster file, and values for the
  parameters of \<open>brown_clusters_parse\<close> that read it as the scenario says.\<close>

definition brown_line :: string where
  "brown_line = ''110100'' @ [CHR 0x09] @ ''bank''"

definition brown_base_parse ::
    "int \<Rightarrow> (string \<rightharpoonup> ner_feature) \<Rightarrow> ner_feature \<Rightarrow> bool \<times> (string \<rightharpoonup> ner_feature) \<times> ner_feature" where
  "brown_base_parse window m total_features = (True, Map.empty, total_features)"

definition brown_parse_int :: "string \<Rightarrow> int" where
  "brown_parse_int arg = (if arg = ''4'' then 4 else if arg = ''6'' then 6 else 0)"

definition brown_split :: "string \<Rightarrow> char \<Rightarrow> string list" where
  "brown_split text sep = (if text = brown_line \<and> sep = CHR 0x09 then [''110100'', ''bank''] else [text])"

definition brown_open_file :: "string \<Rightarrow> string list option" where
  "brown_open_file name = (if name = ''clusters'' then Some [brown_line] else None)"


text \<open>The number that a string of decimal digits denotes.\<close>

definition decimal_value :: "string \<Rightarrow> nat" where
  "decimal_value str = foldl (\<lambda>n c. n * 10 + (of_char c - of_char CHR ''0'')) 0 str"

section \<open>Properties of the primitive\<close>

lemma emplace_feature_fields [simp]:
  "sent_size (emplace_feature I f w s) = sent_size s"
  "words (emplace_feature I f w s) = words s"
  "previous_stage (emplace_feature I f w s) = previous_stage s"
  "probabilities (emplace_feature I f w s) = probabilities s"
  "length (features (emplace_feature I f w s)) = length (features s)"
  by (simp_all add: emplace_feature_def)

lemma fold_emplace_fields [simp]:
  "sent_size (fold (emplace_feature I f) ps s) = sent_size s"
  "words (fold (emplace_feature I f) ps s) = words s"
  "previous_stage (fold (emplace_feature I f) ps s) = previous_stage s"
  "probabilities (fold (emplace_feature I f) ps s) = probabilities s"
  "length (features (fold (emplace_feature I f) ps s)) = length (features s)"
  by (induction ps arbitrary: s; simp)+

lemma fold_emplace_features:
  assumes "distinct ps" and "\<forall>q\<in>set ps. 0 \<le> q \<and> nat q < length (features s)"
    and "p < length (features s)"
  shows "features (fold (emplace_feature I f) ps s) ! p =
           (if int p \<in> set ps then features s ! p @ [f + word_of_int (int p) - word_of_int I]
            else features s ! p)"
  using assms
proof (induction ps arbitrary: s)
  case Nil
  then show ?case by simp
next
  case (Cons q ps)
  let ?s = "emplace_feature I f q s"
  have len: "length (features ?s) = length (features s)" by simp
  have q: "0 \<le> q" "nat q < length (features s)" "q \<notin> set ps" using Cons.prems by auto
  have IH: "features (fold (emplace_feature I f) ps ?s) ! p =
      (if int p \<in> set ps then features ?s ! p @ [f + word_of_int (int p) - word_of_int I]
       else features ?s ! p)"
    using Cons.prems by (intro Cons.IH) (auto simp: len)
  show ?case
  proof (cases "int p = q")
    case True
    then have "int p \<notin> set ps" using q by simp
    moreover have "features ?s ! p = features s ! p @ [f + word_of_int (int p) - word_of_int I]"
      using True q by (auto simp: emplace_feature_def)
    ultimately show ?thesis using IH True by simp
  next
    case False
    then have "nat q \<noteq> p" using q by auto
    then have "features ?s ! p = features s ! p"
      by (simp add: emplace_feature_def)
    then show ?thesis using IH False by simp
  qed
qed

lemma apply_in_range_fields [simp]:
  "sent_size (apply_in_range unk s I f L R) = sent_size s"
  "words (apply_in_range unk s I f L R) = words s"
  "previous_stage (apply_in_range unk s I f L R) = previous_stage s"
  "probabilities (apply_in_range unk s I f L R) = probabilities s"
  "length (features (apply_in_range unk s I f L R)) = length (features s)"
  by (simp_all add: apply_in_range_def)

lemma apply_in_range_unknown [simp]: "apply_in_range unk s I unk L R = s"
  by (simp add: apply_in_range_def)

lemma apply_in_range_bounds:
  "(if I + L < 0 then 0 else I + L) = max 0 (I + L)"
  "(if I + R + 1 < int n then I + R + 1 else int n) - 1 = min (int n - 1) (I + R)"
  by (simp_all add: max_def min_def)

lemma apply_in_range_features:
  assumes "sent_size s \<le> length (features s)" and "p < length (features s)"
  shows "features (apply_in_range unk s I f L R) ! p =
           (if f \<noteq> unk \<and> max 0 (I + L) \<le> int p \<and> int p \<le> min (int (sent_size s) - 1) (I + R)
            then features s ! p @ [f + word_of_int (int p - I)]
            else features s ! p)"
proof (cases "f = unk")
  case True
  then show ?thesis by simp
next
  case False
  define lo where "lo = max 0 (I + L)"
  define hi where "hi = min (int (sent_size s) - 1) (I + R)"
  have run: "apply_in_range unk s I f L R = fold (emplace_feature I f) [lo..hi] s"
    unfolding apply_in_range_def apply_in_range_bounds lo_def hi_def using False by simp
  have "0 \<le> lo" by (simp add: lo_def)
  moreover have "hi < int (length (features s))" using assms(1) by (simp add: hi_def)
  ultimately have range: "\<forall>q\<in>set [lo..hi]. 0 \<le> q \<and> nat q < length (features s)"
    by auto
  have "features (fold (emplace_feature I f) [lo..hi] s) ! p =
      (if int p \<in> set [lo..hi] then features s ! p @ [f + word_of_int (int p) - word_of_int I]
       else features s ! p)"
    using range assms(2) by (intro fold_emplace_features) simp_all
  then show ?thesis
    using False by (simp add: run lo_def hi_def)
qed

lemma apply_in_range_wf [simp]: "wf_sentence (apply_in_range unk s I f L R) = wf_sentence s"
  by (simp add: wf_sentence_def)

text \<open>
  Claim C1 (window emission primitive). For every sentence whose feature vector covers
  its tokens, every index \<open>I\<close>, feature \<open>f\<close> and range \<open>[L, R]\<close>: if \<open>f\<close> is the unknown
  sentinel the sentence is unchanged; otherwise \<open>features[p]\<close> receives exactly the one
  id \<open>f + (p - I)\<close> at its end for every position \<open>p\<close> with
  \<open>max 0 (I + L) \<le> p \<le> min (size - 1) (I + R)\<close>, and no other position changes. The sum
  is the unsigned 32-bit sum of the source.
\<close>

theorem apply_in_range_spec:
  assumes "sent_size s \<le> length (features s)"
  shows "(f = unk \<longrightarrow> apply_in_range unk s I f L R = s) \<and>
         (f \<noteq> unk \<longrightarrow>
            (\<forall>p<length (features s).
               features (apply_in_range unk s I f L R) ! p =
                 (if max 0 (I + L) \<le> int p \<and> int p \<le> min (int (sent_size s) - 1) (I + R)
                  then features s ! p @ [f + word_of_int (int p - I)]
                  else features s ! p))) \<and>
         length (features (apply_in_range unk s I f L R)) = length (features s)"
  using assms by (simp add: apply_in_range_features)

theorem apply_in_range_spec_witness:
  "(let s = \<lparr>sent_size = 3, words = [], features = [[1], [], [7, 8]], previous_stage = [],
              probabilities = []\<rparr>
    in sent_size s \<le> length (features s) \<and>
       features (apply_in_range (- 1) s 2 20 (- 1) 1) ! 0 = [1] \<and>
       features (apply_in_range (- 1) s 2 20 (- 1) 1) ! 1 = [19] \<and>
       features (apply_in_range (- 1) s 2 20 (- 1) 1) ! 2 = [7, 8, 20] \<and>
       length (features (apply_in_range (- 1) s 2 20 (- 1) 1)) = 3 \<and>
       apply_in_range (- 1) s 2 (- 1) (- 1) 1 = s)"
proof -
  define s where "s = \<lparr>sent_size = 3, words = [], features = [[1 :: ner_feature], [], [7, 8]],
     previous_stage = [], probabilities = []\<rparr>"
  have h: "sent_size s \<le> length (features s)" by (simp add: s_def)
  have fs: "features s = [[1], [], [7, 8]]" "sent_size s = 3" by (simp_all add: s_def)
  note t = apply_in_range_spec [OF h, of "20" "- 1" 2 "- 1" 1]
  have ne: "(20 :: ner_feature) \<noteq> - 1" by simp
  from t ne have a: "\<forall>p<length (features s).
               features (apply_in_range (- 1) s 2 20 (- 1) 1) ! p =
                 (if max 0 (2 + - 1) \<le> int p \<and> int p \<le> min (int (sent_size s) - 1) (2 + 1)
                  then features s ! p @ [20 + word_of_int (int p - 2)]
                  else features s ! p)"
    and len: "length (features (apply_in_range (- 1) s 2 20 (- 1) 1)) = length (features s)"
    by blast+
  have "features (apply_in_range (- 1) s 2 20 (- 1) 1) ! 0 = [1]"
       "features (apply_in_range (- 1) s 2 20 (- 1) 1) ! 1 = [19]"
       "features (apply_in_range (- 1) s 2 20 (- 1) 1) ! 2 = [7, 8, 20]"
    using a[rule_format, of 0] a[rule_format, of 1] a[rule_format, of 2] by (simp_all add: fs)
  moreover have "length (features (apply_in_range (- 1) s 2 20 (- 1) 1)) = 3"
    using len by (simp add: fs)
  moreover have "apply_in_range (- 1) s 2 (- 1) (- 1) 1 = s"
    using apply_in_range_spec [OF h, of "- 1" "- 1" 2 "- 1" 1] by simp
  ultimately show ?thesis using h unfolding s_def by (simp add: Let_def)
qed

section \<open>CzechAddContainers: the scenario\<close>

text \<open>
  Claim C4. On the entities \<open>(0,1,pf), (1,1,pf), (2,1,ps), (5,1,td), (6,1,tm), (7,1,ty)\<close>
  \<^verbatim>\<open>process_entities\<close> yields the list with the container \<open>(0,3,P)\<close> right before the
  \<open>pf\<close> entity at 0 and the container \<open>(5,3,T)\<close> right before the \<open>td\<close> entity at 5;
  without the two containers it is the list of the six entities in their order.
\<close>

theorem czech_add_containers_scenario:
  "process_entities
     [\<lparr>start = 0, len = 1, type = ''pf''\<rparr>, \<lparr>start = 1, len = 1, type = ''pf''\<rparr>,
      \<lparr>start = 2, len = 1, type = ''ps''\<rparr>, \<lparr>start = 5, len = 1, type = ''td''\<rparr>,
      \<lparr>start = 6, len = 1, type = ''tm''\<rparr>, \<lparr>start = 7, len = 1, type = ''ty''\<rparr>] =
     [\<lparr>start = 0, len = 3, type = ''P''\<rparr>,
      \<lparr>start = 0, len = 1, type = ''pf''\<rparr>, \<lparr>start = 1, len = 1, type = ''pf''\<rparr>,
      \<lparr>start = 2, len = 1, type = ''ps''\<rparr>,
      \<lparr>start = 5, len = 3, type = ''T''\<rparr>,
      \<lparr>start = 5, len = 1, type = ''td''\<rparr>,
      \<lparr>start = 6, len = 1, type = ''tm''\<rparr>, \<lparr>start = 7, len = 1, type = ''ty''\<rparr>] \<and>
   filter (\<lambda>e. type e \<noteq> ''P'' \<and> type e \<noteq> ''T'')
     (process_entities
        [\<lparr>start = 0, len = 1, type = ''pf''\<rparr>, \<lparr>start = 1, len = 1, type = ''pf''\<rparr>,
         \<lparr>start = 2, len = 1, type = ''ps''\<rparr>, \<lparr>start = 5, len = 1, type = ''td''\<rparr>,
         \<lparr>start = 6, len = 1, type = ''tm''\<rparr>, \<lparr>start = 7, len = 1, type = ''ty''\<rparr>]) =
     [\<lparr>start = 0, len = 1, type = ''pf''\<rparr>, \<lparr>start = 1, len = 1, type = ''pf''\<rparr>,
      \<lparr>start = 2, len = 1, type = ''ps''\<rparr>, \<lparr>start = 5, len = 1, type = ''td''\<rparr>,
      \<lparr>start = 6, len = 1, type = ''tm''\<rparr>, \<lparr>start = 7, len = 1, type = ''ty''\<rparr>]"
  by (simp add: process_entities_def add_containers_at_def scan_adjacent.simps Let_def)

section \<open>NumericTimeValue: the scenario and the wrap-around\<close>

lemma apply_in_window_fields [simp]:
  "sent_size (apply_in_window unk w s I f) = sent_size s"
  "words (apply_in_window unk w s I f) = words s"
  "previous_stage (apply_in_window unk w s I f) = previous_stage s"
  "probabilities (apply_in_window unk w s I f) = probabilities s"
  "length (features (apply_in_window unk w s I f)) = length (features s)"
  by (simp_all add: apply_in_window_def)

lemma nth_of_map_take:
  assumes "map f (take n xs) = ys" "i < length ys"
  shows "f (xs ! i) = ys ! i"
proof -
  have "i < length (take n xs)" using assms by auto
  then have "map f (take n xs) ! i = f (xs ! i)" by simp
  then show ?thesis using assms by simp
qed

lemma upt_0_6: "[0..<6] = [0, 1, 2, 3, 4, 5]"
  by (simp add: upt_rec)

text \<open>What the body of the loop does on each of the six forms.\<close>

lemma ntv_word_7:
  assumes "form (words s ! i) = ''7''"
  shows "number_time_value_word unk window hour minute time day month year i s =
     apply_in_window unk window (apply_in_window unk window (apply_in_window unk window
       (apply_in_window unk window s (int i) hour) (int i) minute) (int i) day) (int i) month"
  using assms by (simp add: number_time_value_word_def c_str_def Let_def)

lemma ntv_word_30:
  assumes "form (words s ! i) = ''30''"
  shows "number_time_value_word unk window hour minute time day month year i s =
     apply_in_window unk window (apply_in_window unk window s (int i) minute) (int i) day"
  using assms by (simp add: number_time_value_word_def c_str_def Let_def)

lemma ntv_word_1245:
  assumes "form (words s ! i) = ''12:45''"
  shows "number_time_value_word unk window hour minute time day month year i s =
     apply_in_window unk window s (int i) time"
  using assms by (simp add: number_time_value_word_def c_str_def Let_def)

lemma ntv_word_1999:
  assumes "form (words s ! i) = ''1999''"
  shows "number_time_value_word unk window hour minute time day month year i s =
     apply_in_window unk window s (int i) year"
  using assms by (simp add: number_time_value_word_def c_str_def Let_def)

lemma ntv_word_2300:
  assumes "form (words s ! i) = ''2300''"
  shows "number_time_value_word unk window hour minute time day month year i s = s"
  using assms by (simp add: number_time_value_word_def c_str_def Let_def)

lemma ntv_word_1370:
  assumes "form (words s ! i) = ''13.70''"
  shows "number_time_value_word unk window hour minute time day month year i s = s"
  using assms by (simp add: number_time_value_word_def c_str_def Let_def)

lemma word32_wrap: "(4294967296 :: 32 word) = 0"
  by simp

lemma digit_run_wrap: "digit_run False 0 ''4294967296'' = (True, 0, [])"
  by simp

lemma ntv_word_wrap:
  assumes "form (words s ! i) = ''4294967296''"
  shows "number_time_value_word unk window hour minute time day month year i s =
     apply_in_window unk window (apply_in_window unk window s (int i) hour) (int i) minute"
  using assms by (simp add: number_time_value_word_def c_str_def Let_def word32_wrap)

lemma ntv_scenario:
  assumes "sent_size s = 6"
    and "map form (take 6 (words s)) = [''7'', ''30'', ''12:45'', ''1999'', ''2300'', ''13.70'']"
  shows "number_time_value_process_sentence lkp unk window s m =
    (case lkp ''H'' m of (hour, m1) \<Rightarrow>
     case lkp ''M'' m1 of (minute, m2) \<Rightarrow>
     case lkp ''t'' m2 of (time, m3) \<Rightarrow>
     case lkp ''d'' m3 of (day, m4) \<Rightarrow>
     case lkp ''m'' m4 of (month, m5) \<Rightarrow>
     case lkp ''y'' m5 of (year, m6) \<Rightarrow>
       (fold (\<lambda>(i, f) s. apply_in_window unk window s i f)
          [(0, hour), (0, minute), (0, day), (0, month), (1, minute), (1, day), (2, time), (3, year)] s,
        m6))"
proof -
  have f: "form (words s ! 0) = ''7''" "form (words s ! 1) = ''30''" "form (words s ! 2) = ''12:45''"
     "form (words s ! 3) = ''1999''" "form (words s ! 4) = ''2300''" "form (words s ! 5) = ''13.70''"
    using nth_of_map_take[OF assms(2), of 0] nth_of_map_take[OF assms(2), of 1]
      nth_of_map_take[OF assms(2), of 2] nth_of_map_take[OF assms(2), of 3]
      nth_of_map_take[OF assms(2), of 4] nth_of_map_take[OF assms(2), of 5] by simp_all
  obtain hour m1 where l1: "lkp ''H'' m = (hour, m1)" by (cases "lkp ''H'' m")
  obtain minute m2 where l2: "lkp ''M'' m1 = (minute, m2)" by (cases "lkp ''M'' m1")
  obtain time m3 where l3: "lkp ''t'' m2 = (time, m3)" by (cases "lkp ''t'' m2")
  obtain day m4 where l4: "lkp ''d'' m3 = (day, m4)" by (cases "lkp ''d'' m3")
  obtain month m5 where l5: "lkp ''m'' m4 = (month, m5)" by (cases "lkp ''m'' m4")
  obtain year m6 where l6: "lkp ''y'' m5 = (year, m6)" by (cases "lkp ''y'' m5")
  define W where "W = number_time_value_word unk window hour minute time day month year"
  define A where "A = (\<lambda>s i f. apply_in_window unk window s i f)"
  define s0 where "s0 = A (A (A (A s 0 hour) 0 minute) 0 day) 0 month"
  define s1 where "s1 = A (A s0 1 minute) 1 day"
  define s2 where "s2 = A s1 2 time"
  define s3 where "s3 = A s2 3 year"
  have ws: "words s0 = words s" "words s1 = words s" "words s2 = words s" "words s3 = words s"
    by (simp_all add: s0_def s1_def s2_def s3_def A_def)
  have 0: "W 0 s = s0"
    using ntv_word_7 [of s 0] f(1) by (simp add: W_def A_def s0_def)
  have 1: "W 1 s0 = s1"
    using ntv_word_30 [of s0 1] f(2) by (simp add: W_def A_def s1_def ws)
  have 2: "W 2 s1 = s2"
    using ntv_word_1245 [of s1 2] f(3) by (simp add: W_def A_def s2_def ws)
  have 3: "W 3 s2 = s3"
    using ntv_word_1999 [of s2 3] f(4) by (simp add: W_def A_def s3_def ws)
  have 4: "W 4 s3 = s3"
    using ntv_word_2300 [of s3 4] f(5) by (simp add: W_def ws)
  have 5: "W 5 s3 = s3"
    using ntv_word_1370 [of s3 5] f(6) by (simp add: W_def ws)
  have run: "fold W [0, 1, 2, 3, 4, 5] s = s3"
    by (simp only: fold_simps o_apply 0 1 2 3 4 5 id_apply)
  have res: "fold (\<lambda>(i, f) s. apply_in_window unk window s i f)
          [(0, hour), (0, minute), (0, day), (0, month), (1, minute), (1, day), (2, time), (3, year)] s = s3"
    by (simp only: fold_simps o_apply id_apply prod.case s3_def s2_def s1_def s0_def A_def)
  show ?thesis
    unfolding number_time_value_process_sentence_def assms(1) upt_0_6 l1 l2 l3 l4 l5 l6 prod.case
      res
    using run unfolding W_def by simp
qed

lemma numeric_emitted:
  "fst (number_time_value_process_sentence (table_lookup numeric_table (- 1)) (- 1) 2
          (sentence_of_forms numeric_forms) ()) =
   fold (\<lambda>(i, f) s. apply_in_window (- 1) 2 s i f)
     [(0, 100), (0, 200), (0, 400), (0, 500), (1, 200), (1, 400), (2, 300), (3, 600)]
     (sentence_of_forms numeric_forms)"
  using ntv_scenario [of "sentence_of_forms numeric_forms" "table_lookup numeric_table (- 1)" "- 1" 2 "()"]
  by (simp add: sentence_of_forms_def numeric_forms_def word_of_form_def table_lookup_def
        numeric_table_def)

lemma numeric_features:
  "features (fold (\<lambda>(i, f) s. apply_in_window (- 1) 2 s i f)
     [(0, 100), (0, 200), (0, 400), (0, 500), (1, 200), (1, 400), (2, 300), (3, 600)]
     (sentence_of_forms numeric_forms)) =
   [[100, 200, 400, 500, 199, 399, 298], [101, 201, 401, 501, 200, 400, 299, 598],
    [102, 202, 402, 502, 201, 401, 300, 599], [202, 402, 301, 600], [302, 601], [602]]"
  by (simp add: sentence_of_forms_def numeric_forms_def word_of_form_def apply_in_window_def
        apply_in_range_def emplace_feature_def upto.simps)

text \<open>
  Claim C5, as the code has it. On the forms \<open>7, 30, 12:45, 1999, 2300, 13.70\<close> the
  features are emitted in the window of a token only where the whole form is a number in
  the range of the feature, and \<open>time\<close> where it reads hours, a dot or colon, and minutes:
  hour, minute, day and month at 0; minute and day at 1; time alone at 2; year alone at
  3; nothing at 4 and nothing at 5.
\<close>

theorem number_time_value_scenario:
  assumes "sent_size s = 6"
    and "map form (take 6 (words s)) = [''7'', ''30'', ''12:45'', ''1999'', ''2300'', ''13.70'']"
  shows "number_time_value_process_sentence lkp unk window s m =
    (case lkp ''H'' m of (hour, m1) \<Rightarrow>
     case lkp ''M'' m1 of (minute, m2) \<Rightarrow>
     case lkp ''t'' m2 of (time, m3) \<Rightarrow>
     case lkp ''d'' m3 of (day, m4) \<Rightarrow>
     case lkp ''m'' m4 of (month, m5) \<Rightarrow>
     case lkp ''y'' m5 of (year, m6) \<Rightarrow>
       (fold (\<lambda>(i, f) s. apply_in_window unk window s i f)
          [(0, hour), (0, minute), (0, day), (0, month), (1, minute), (1, day), (2, time), (3, year)] s,
        m6))"
  using assms by (rule ntv_scenario)

theorem number_time_value_scenario_witness:
  "sent_size (sentence_of_forms numeric_forms) = 6 \<and>
   map form (take 6 (words (sentence_of_forms numeric_forms))) =
     [''7'', ''30'', ''12:45'', ''1999'', ''2300'', ''13.70''] \<and>
   number_time_value_process_sentence (table_lookup numeric_table (- 1)) (- 1) 2
       (sentence_of_forms numeric_forms) () =
     (fold (\<lambda>(i, f) s. apply_in_window (- 1) 2 s i f)
        [(0, 100), (0, 200), (0, 400), (0, 500), (1, 200), (1, 400), (2, 300), (3, 600)]
        (sentence_of_forms numeric_forms), ())"
proof -
  have h1: "sent_size (sentence_of_forms numeric_forms) = 6"
    by (simp add: sentence_of_forms_def numeric_forms_def)
  have h2: "map form (take 6 (words (sentence_of_forms numeric_forms))) =
     [''7'', ''30'', ''12:45'', ''1999'', ''2300'', ''13.70'']"
    by (simp add: sentence_of_forms_def numeric_forms_def word_of_form_def)
  show ?thesis
    using number_time_value_scenario [OF h1 h2, of "table_lookup numeric_table (- 1)" "- 1" 2 "()"]
      h1 h2
    by (simp add: table_lookup_def numeric_table_def)
qed

text \<open>
  The claim as the specification words it fails on this sentence: with window 2 and the
  features \<open>H, M, t, d, m, y\<close> interned as 100, 200, 300, 400, 500 and 600, the vector of
  token 2 holds neither hour (100), minute (200) nor day (400), the vector of token 3
  neither day (400) nor month (500), and the vector of token 5 neither hour, day nor
  month.
\<close>

theorem number_time_value_scenario_counterexample:
  "features (fst (number_time_value_process_sentence (table_lookup numeric_table (- 1)) (- 1) 2
                    (sentence_of_forms numeric_forms) ())) =
     [[100, 200, 400, 500, 199, 399, 298], [101, 201, 401, 501, 200, 400, 299, 598],
      [102, 202, 402, 502, 201, 401, 300, 599], [202, 402, 301, 600], [302, 601], [602]] \<and>
   100 \<notin> set (features (fst (number_time_value_process_sentence (table_lookup numeric_table (- 1))
                    (- 1) 2 (sentence_of_forms numeric_forms) ())) ! 2) \<and>
   400 \<notin> set (features (fst (number_time_value_process_sentence (table_lookup numeric_table (- 1))
                    (- 1) 2 (sentence_of_forms numeric_forms) ())) ! 3) \<and>
   100 \<notin> set (features (fst (number_time_value_process_sentence (table_lookup numeric_table (- 1))
                    (- 1) 2 (sentence_of_forms numeric_forms) ())) ! 5)"
  unfolding numeric_emitted numeric_features by simp

text \<open>
  Claim C10. The digits are accumulated in a 32-bit unsigned number that wraps: the token
  \<open>4294967296\<close> denotes \<open>2^32\<close>, above every bound of the table, the loop leaves
  \<^verbatim>\<open>num = 0\<close>, and the hour and minute features (and no other) are emitted in the window
  of that token.
\<close>

theorem number_time_value_wraps:
  "decimal_value ''4294967296'' = 2 ^ 32 \<and> 2200 < decimal_value ''4294967296'' \<and>
   digit_run False 0 (c_str ''4294967296'') = (True, 0, []) \<and>
   number_time_value_process_sentence lkp unk window
       \<lparr>sent_size = 1, words = [w\<lparr>form := ''4294967296''\<rparr>], features = fs,
        previous_stage = ps, probabilities = pr\<rparr> m =
     (case lkp ''H'' m of (hour, m1) \<Rightarrow>
      case lkp ''M'' m1 of (minute, m2) \<Rightarrow>
      case lkp ''t'' m2 of (time, m3) \<Rightarrow>
      case lkp ''d'' m3 of (day, m4) \<Rightarrow>
      case lkp ''m'' m4 of (month, m5) \<Rightarrow>
      case lkp ''y'' m5 of (year, m6) \<Rightarrow>
        (apply_in_window unk window
           (apply_in_window unk window
              \<lparr>sent_size = 1, words = [w\<lparr>form := ''4294967296''\<rparr>], features = fs,
               previous_stage = ps, probabilities = pr\<rparr> 0 hour) 0 minute, m6))"
proof -
  have "decimal_value ''4294967296'' = 2 ^ 32"
    by (simp add: decimal_value_def)
  moreover have "digit_run False 0 (c_str ''4294967296'') = (True, 0, [])"
    by (simp add: c_str_def)
  moreover have "number_time_value_process_sentence lkp unk window
       \<lparr>sent_size = 1, words = [w\<lparr>form := ''4294967296''\<rparr>], features = fs,
        previous_stage = ps, probabilities = pr\<rparr> m =
     (case lkp ''H'' m of (hour, m1) \<Rightarrow>
      case lkp ''M'' m1 of (minute, m2) \<Rightarrow>
      case lkp ''t'' m2 of (time, m3) \<Rightarrow>
      case lkp ''d'' m3 of (day, m4) \<Rightarrow>
      case lkp ''m'' m4 of (month, m5) \<Rightarrow>
      case lkp ''y'' m5 of (year, m6) \<Rightarrow>
        (apply_in_window unk window
           (apply_in_window unk window
              \<lparr>sent_size = 1, words = [w\<lparr>form := ''4294967296''\<rparr>], features = fs,
               previous_stage = ps, probabilities = pr\<rparr> 0 hour) 0 minute, m6))"
    by (simp add: number_time_value_process_sentence_def ntv_word_wrap [where i = 0, simplified]
          split: prod.splits)
  ultimately show ?thesis by simp
qed


section \<open>FormCapitalization: the scenario\<close>

lemma capitalization_step_eq:
  "capitalization_step unk w Lut Ll i f c (first, u, l, s) =
     (False, u \<or> Lut c, l \<or> Ll c,
      if first \<and> (u \<or> Lut c) then apply_in_window unk w s (int i) f else s)"
  by (simp add: capitalization_step_def Let_def)

lemma capitalization_fold:
  "fold (capitalization_step unk w Lut Ll i f) chrs (first, u, l, s) =
     (first \<and> chrs = [], u \<or> (\<exists>c\<in>set chrs. Lut c), l \<or> (\<exists>c\<in>set chrs. Ll c),
      if first \<and> chrs \<noteq> [] \<and> (u \<or> Lut (hd chrs)) then apply_in_window unk w s (int i) f else s)"
proof (induction chrs arbitrary: first u l s)
  case Nil
  then show ?case by simp
next
  case (Cons c cs)
  have "fold (capitalization_step unk w Lut Ll i f) (c # cs) (first, u, l, s) =
        fold (capitalization_step unk w Lut Ll i f) cs
          (False, u \<or> Lut c, l \<or> Ll c,
           if first \<and> (u \<or> Lut c) then apply_in_window unk w s (int i) f else s)"
    by (simp only: fold_simps o_apply capitalization_step_eq)
  also have "\<dots> = (False, (u \<or> Lut c) \<or> (\<exists>c\<in>set cs. Lut c), (l \<or> Ll c) \<or> (\<exists>c\<in>set cs. Ll c),
           if first \<and> (u \<or> Lut c) then apply_in_window unk w s (int i) f else s)"
    by (simp only: Cons.IH) simp
  finally show ?case by auto
qed

lemma capitalization_word_eq:
  "capitalization_word unk w Lut Ll f a m chrs i s =
     (let s1 = (if chrs \<noteq> [] \<and> Lut (hd chrs) then apply_in_window unk w s (int i) f else s);
          s2 = (if (\<exists>c\<in>set chrs. Lut c) \<and> \<not> (\<exists>c\<in>set chrs. Ll c)
                then apply_in_window unk w s1 (int i) a else s1)
      in if (\<exists>c\<in>set chrs. Lut c) \<and> (\<exists>c\<in>set chrs. Ll c)
         then apply_in_window unk w s2 (int i) m else s2)"
  by (simp add: capitalization_word_def capitalization_fold Let_def)


lemma upt_0_4: "[0..<4] = [0, 1, 2, 3]"
  by (simp add: upt_rec)

lemma capitalization_scenario:
  assumes "sent_size s = 4"
    and "map field (take 4 (words s)) = [''Prague'', ''IS'', ''nice'', ''mIxEd'']"
    and "map decode [''Prague'', ''IS'', ''nice'', ''mIxEd''] =
         map (map of_char) [''Prague'', ''IS'', ''nice'', ''mIxEd'']"
    and "\<forall>c\<in>{65..90}. Lut c \<and> \<not> Ll c" and "\<forall>c\<in>{97..122}. Ll c \<and> \<not> Lut c"
  shows "capitalization_process_sentence field decode Lut Ll lkp unk window s m =
    (case lkp ''f'' m of (fst_cap, m1) \<Rightarrow>
     case lkp ''a'' m1 of (all_cap, m2) \<Rightarrow>
     case lkp ''m'' m2 of (mixed_cap, m3) \<Rightarrow>
       (fold (\<lambda>(i, f) s. apply_in_window unk window s i f)
          [(0, fst_cap), (0, mixed_cap), (1, fst_cap), (1, all_cap), (3, mixed_cap)] s, m3))"
proof -
  have f: "field (words s ! 0) = ''Prague''" "field (words s ! 1) = ''IS''"
     "field (words s ! 2) = ''nice''" "field (words s ! 3) = ''mIxEd''"
    using nth_of_map_take[OF assms(2), of 0] nth_of_map_take[OF assms(2), of 1]
      nth_of_map_take[OF assms(2), of 2] nth_of_map_take[OF assms(2), of 3] by simp_all
  have d: "decode ''Prague'' = [80, 114, 97, 103, 117, 101]" "decode ''IS'' = [73, 83]"
     "decode ''nice'' = [110, 105, 99, 101]" "decode ''mIxEd'' = [109, 73, 120, 69, 100]"
    using assms(3) by simp_all
  have U: "Lut c" "\<not> Ll c" if "65 \<le> c" "c \<le> 90" for c using assms(4) that by auto
  have L: "Ll c" "\<not> Lut c" if "97 \<le> c" "c \<le> 122" for c using assms(5) that by auto
  have c [simp]: "Lut 80" "Lut 73" "Lut 83" "Lut 69" "\<not> Lut 114" "\<not> Lut 97" "\<not> Lut 103"
     "\<not> Lut 117" "\<not> Lut 101" "\<not> Lut 110" "\<not> Lut 105" "\<not> Lut 99" "\<not> Lut 109" "\<not> Lut 120"
     "\<not> Lut 100" "\<not> Ll 80" "\<not> Ll 73" "\<not> Ll 83" "\<not> Ll 69" "Ll 114" "Ll 97" "Ll 103"
     "Ll 117" "Ll 101" "Ll 110" "Ll 105" "Ll 99" "Ll 109" "Ll 120" "Ll 100"
    by (simp_all add: U L)
  obtain fst_cap m1 where l1: "lkp ''f'' m = (fst_cap, m1)" by (cases "lkp ''f'' m")
  obtain all_cap m2 where l2: "lkp ''a'' m1 = (all_cap, m2)" by (cases "lkp ''a'' m1")
  obtain mixed_cap m3 where l3: "lkp ''m'' m2 = (mixed_cap, m3)" by (cases "lkp ''m'' m2")
  define W where "W = (\<lambda>i s. capitalization_word unk window Lut Ll fst_cap all_cap mixed_cap
                        (decode (field (words s ! i))) i s)"
  define A where "A = (\<lambda>s i f. apply_in_window unk window s i f)"
  define s0 where "s0 = A (A s 0 fst_cap) 0 mixed_cap"
  define s1 where "s1 = A (A s0 1 fst_cap) 1 all_cap"
  define s3 where "s3 = A s1 3 mixed_cap"
  have ws: "words s0 = words s" "words s1 = words s" "words s3 = words s"
    by (simp_all add: s0_def s1_def s3_def A_def)
  have 0: "W 0 s = s0"
    using f(1) by (simp add: W_def d capitalization_word_eq A_def s0_def)
  have 1: "W 1 s0 = s1"
    using f(2) by (simp add: W_def d ws capitalization_word_eq A_def s1_def)
  have 2: "W 2 s1 = s1"
    using f(3) by (simp add: W_def d ws capitalization_word_eq)
  have 3: "W 3 s1 = s3"
    using f(4) by (simp add: W_def d ws capitalization_word_eq A_def s3_def)
  have run: "fold W [0, 1, 2, 3] s = s3"
    by (simp only: fold_simps o_apply 0 1 2 3 id_apply)
  have res: "fold (\<lambda>(i, f) s. apply_in_window unk window s i f)
          [(0, fst_cap), (0, mixed_cap), (1, fst_cap), (1, all_cap), (3, mixed_cap)] s = s3"
    by (simp only: fold_simps o_apply id_apply prod.case s3_def s1_def s0_def A_def)
  show ?thesis
    unfolding capitalization_process_sentence_def assms(1) upt_0_4 l1 l2 l3 prod.case res
    using run unfolding W_def by simp
qed

lemma capital_emitted:
  "fst (form_capitalization_process_sentence ascii_decode ascii_Lut ascii_Ll
          (table_lookup capital_table (- 1)) (- 1) 2 (sentence_of_forms capital_forms) ()) =
   fold (\<lambda>(i, f) s. apply_in_window (- 1) 2 s i f)
     [(0, 100), (0, 300), (1, 100), (1, 200), (3, 300)] (sentence_of_forms capital_forms)"
proof -
  have h1: "sent_size (sentence_of_forms capital_forms) = 4"
    by (simp add: sentence_of_forms_def capital_forms_def)
  have h2: "map form (take 4 (words (sentence_of_forms capital_forms))) =
     [''Prague'', ''IS'', ''nice'', ''mIxEd'']"
    by (simp add: sentence_of_forms_def capital_forms_def word_of_form_def)
  have h3: "map ascii_decode [''Prague'', ''IS'', ''nice'', ''mIxEd''] =
         map (map of_char) [''Prague'', ''IS'', ''nice'', ''mIxEd'']"
    by (simp add: ascii_decode_def c_str_def)
  have h4: "\<forall>c\<in>{65..90}. ascii_Lut c \<and> \<not> ascii_Ll c"
    by (simp add: ascii_Lut_def ascii_Ll_def)
  have h5: "\<forall>c\<in>{97..122}. ascii_Ll c \<and> \<not> ascii_Lut c"
    by (simp add: ascii_Lut_def ascii_Ll_def)
  show ?thesis
    unfolding form_capitalization_process_sentence_def
    using capitalization_scenario [OF h1 h2 h3 h4 h5, of "table_lookup capital_table (- 1)" "- 1" 2 "()"]
    by (simp add: table_lookup_def capital_table_def)
qed

lemma capital_features:
  "features (fold (\<lambda>(i, f) s. apply_in_window (- 1) 2 s i f)
     [(0, 100), (0, 300), (1, 100), (1, 200), (3, 300)] (sentence_of_forms capital_forms)) =
   [[100, 300, 99, 199], [101, 301, 100, 200, 298], [102, 302, 101, 201, 299], [102, 202, 300]]"
  by (simp add: sentence_of_forms_def capital_forms_def word_of_form_def apply_in_window_def
        apply_in_range_def emplace_feature_def upto.simps)


text \<open>
  Claim C6, as the code has it. On the forms \<open>Prague, IS, nice, mIxEd\<close> (decoded and
  classified as ASCII letters are) \<open>f\<close> is emitted in the window of the tokens 0 and 1,
  whose first letter is upper case, \<open>a\<close> at token 1, \<open>m\<close> at the tokens 0 and 3, which
  have an upper-case and a lower-case letter, and nothing at token 2.
\<close>

theorem form_capitalization_scenario:
  assumes "sent_size s = 4"
    and "map form (take 4 (words s)) = [''Prague'', ''IS'', ''nice'', ''mIxEd'']"
    and "map decode [''Prague'', ''IS'', ''nice'', ''mIxEd''] =
         map (map of_char) [''Prague'', ''IS'', ''nice'', ''mIxEd'']"
    and "\<forall>c\<in>{65..90}. Lut c \<and> \<not> Ll c" and "\<forall>c\<in>{97..122}. Ll c \<and> \<not> Lut c"
  shows "form_capitalization_process_sentence decode Lut Ll lkp unk window s m =
    (case lkp ''f'' m of (fst_cap, m1) \<Rightarrow>
     case lkp ''a'' m1 of (all_cap, m2) \<Rightarrow>
     case lkp ''m'' m2 of (mixed_cap, m3) \<Rightarrow>
       (fold (\<lambda>(i, f) s. apply_in_window unk window s i f)
          [(0, fst_cap), (0, mixed_cap), (1, fst_cap), (1, all_cap), (3, mixed_cap)] s, m3))"
  unfolding form_capitalization_process_sentence_def using assms by (rule capitalization_scenario)

theorem form_capitalization_scenario_witness:
  "sent_size (sentence_of_forms capital_forms) = 4 \<and>
   map form (take 4 (words (sentence_of_forms capital_forms))) =
     [''Prague'', ''IS'', ''nice'', ''mIxEd''] \<and>
   map ascii_decode [''Prague'', ''IS'', ''nice'', ''mIxEd''] =
     map (map of_char) [''Prague'', ''IS'', ''nice'', ''mIxEd''] \<and>
   form_capitalization_process_sentence ascii_decode ascii_Lut ascii_Ll
       (table_lookup capital_table (- 1)) (- 1) 2 (sentence_of_forms capital_forms) () =
     (fold (\<lambda>(i, f) s. apply_in_window (- 1) 2 s i f)
        [(0, 100), (0, 300), (1, 100), (1, 200), (3, 300)] (sentence_of_forms capital_forms), ())"
proof -
  have h1: "sent_size (sentence_of_forms capital_forms) = 4"
    by (simp add: sentence_of_forms_def capital_forms_def)
  have h2: "map form (take 4 (words (sentence_of_forms capital_forms))) =
     [''Prague'', ''IS'', ''nice'', ''mIxEd'']"
    by (simp add: sentence_of_forms_def capital_forms_def word_of_form_def)
  have h3: "map ascii_decode [''Prague'', ''IS'', ''nice'', ''mIxEd''] =
         map (map of_char) [''Prague'', ''IS'', ''nice'', ''mIxEd'']"
    by (simp add: ascii_decode_def c_str_def)
  have h4: "\<forall>c\<in>{65..90}. ascii_Lut c \<and> \<not> ascii_Ll c"
    by (simp add: ascii_Lut_def ascii_Ll_def)
  have h5: "\<forall>c\<in>{97..122}. ascii_Ll c \<and> \<not> ascii_Lut c"
    by (simp add: ascii_Lut_def ascii_Ll_def)
  show ?thesis
    using form_capitalization_scenario [OF h1 h2 h3 h4 h5, of "table_lookup capital_table (- 1)" "- 1" 2 "()"]
      h1 h2 h3
    by (simp add: table_lookup_def capital_table_def)
qed

text \<open>
  The claim as the specification words it fails on this sentence: with window 2 and
  \<open>f, a, m\<close> interned as 100, 200 and 300, the vector of token 3 does not hold \<open>f\<close>
  (100), since \<open>mIxEd\<close> starts with a lower-case letter; and the vector of token 0
  holds \<open>m\<close> (300), since \<open>Prague\<close> has letters of both cases.
\<close>

theorem form_capitalization_scenario_counterexample:
  "features (fst (form_capitalization_process_sentence ascii_decode ascii_Lut ascii_Ll
                    (table_lookup capital_table (- 1)) (- 1) 2 (sentence_of_forms capital_forms) ())) =
     [[100, 300, 99, 199], [101, 301, 100, 200, 298], [102, 302, 101, 201, 299], [102, 202, 300]] \<and>
   100 \<notin> set (features (fst (form_capitalization_process_sentence ascii_decode ascii_Lut ascii_Ll
                    (table_lookup capital_table (- 1)) (- 1) 2 (sentence_of_forms capital_forms) ())) ! 3)"
  unfolding capital_emitted capital_features by simp

section \<open>URLEmailDetector: what process_sentence writes\<close>

lemma probability_info_update:
  "(b :: probability_info)\<lparr>probability := x, entity := e\<rparr> = \<lparr>probability = x, entity = e\<rparr>"
  by (cases b) simp

lemma bilou_probabilities_update:
  "(l :: bilou_probabilities)\<lparr>bilou := x\<rparr> = \<lparr>bilou = x\<rparr>"
  by (cases l) simp

lemma ner_probabilities_update:
  "(r :: ner_probabilities)\<lparr>local := l, local_filled := b\<rparr> = \<lparr>local = l, local_filled = b\<rparr>"
  by (cases r) simp

lemma url_email_detector_word_eq:
  assumes "i < sent_size s"
  shows "url_email_detector_word detect eu U url email i s =
     s\<lparr>probabilities := (probabilities s)[i := url_email_entry detect eu U url email s i]\<rparr>"
proof (cases "detect (form (words s ! i)) = NO_URL \<or> local_filled (probabilities s ! i)")
  case True
  then show ?thesis
    using assms by (auto simp: url_email_detector_word_def url_email_entry_def)
next
  case False
  have "(map (\<lambda>b. b\<lparr>probability := 0, entity := eu\<rparr>) bs)
          [U := (map (\<lambda>b. b\<lparr>probability := 0, entity := eu\<rparr>) bs ! U)\<lparr>probability := 1, entity := e\<rparr>] =
        url_email_slots eu U e bs" for bs e
    by (simp add: url_email_slots_def probability_info_update)
  then show ?thesis
    using False assms
    by (simp add: url_email_detector_word_def url_email_entry_def Let_def
          bilou_probabilities_update ner_probabilities_update)
qed

lemma map_upt_update:
  "(map (\<lambda>j. if j < n then f j else g j) [0..<k])[n := f n] =
   map (\<lambda>j. if j < Suc n then f j else g j) [0..<k]"
  by (rule nth_equalityI) (auto simp: nth_list_update less_Suc_eq)

lemma url_email_detector_run:
  assumes "n \<le> sent_size s" and "sent_size s \<le> length (probabilities s)"
  shows "fold (url_email_detector_word detect eu U url email) [0..<n] s =
     s\<lparr>probabilities := map (\<lambda>j. if j < n then url_email_entry detect eu U url email s j
                                   else probabilities s ! j) [0..<length (probabilities s)]\<rparr>"
  using assms
proof (induction n)
  case 0
  then show ?case by (simp add: map_nth)
next
  case (Suc n)
  let ?t = "fold (url_email_detector_word detect eu U url email) [0..<n] s"
  have t: "?t = s\<lparr>probabilities := map (\<lambda>j. if j < n then url_email_entry detect eu U url email s j
                                   else probabilities s ! j) [0..<length (probabilities s)]\<rparr>"
    using Suc by simp
  have e: "url_email_entry detect eu U url email ?t n = url_email_entry detect eu U url email s n"
    unfolding t using Suc.prems by (simp add: url_email_entry_def)
  have "fold (url_email_detector_word detect eu U url email) [0..<Suc n] s =
        url_email_detector_word detect eu U url email n ?t"
    by simp
  also have "\<dots> = ?t\<lparr>probabilities := (probabilities ?t)[n := url_email_entry detect eu U url email ?t n]\<rparr>"
    using Suc.prems by (intro url_email_detector_word_eq) (simp add: t)
  also have "\<dots> = s\<lparr>probabilities := map (\<lambda>j. if j < Suc n then url_email_entry detect eu U url email s j
                                   else probabilities s ! j) [0..<length (probabilities s)]\<rparr>"
    unfolding e unfolding t by (simp add: map_upt_update)
  finally show ?case .
qed

lemma url_email_detector_run_all:
  assumes "sent_size s \<le> length (probabilities s)"
  shows "url_email_detector_process_sentence detect eu U url email s =
     s\<lparr>probabilities := map (url_email_entry detect eu U url email s) [0..<length (probabilities s)]\<rparr>"
proof -
  have "map (\<lambda>j. if j < sent_size s then url_email_entry detect eu U url email s j
                   else probabilities s ! j) [0..<length (probabilities s)] =
        map (url_email_entry detect eu U url email s) [0..<length (probabilities s)]"
    by (auto simp: url_email_entry_def)
  then show ?thesis
    using assms by (simp add: url_email_detector_process_sentence_def url_email_detector_run)
qed

text \<open>
  Claim C9. For every sentence whose vector of probabilities covers its tokens,
  \<^verbatim>\<open>process_sentence\<close> changes nothing but \<^verbatim>\<open>probabilities\<close>, and there exactly the
  entries of the tokens \<open>i\<close> that the detector classifies as URL or e-mail and whose
  \<^verbatim>\<open>local_filled\<close> is false: every slot becomes probability 0 with the unknown entity,
  then slot \<open>U\<close> becomes probability 1 with the e-mail or URL entity type, and
  \<^verbatim>\<open>local_filled\<close> becomes true. All other entries, and the features, stay as they are.
\<close>

theorem url_email_detector_spec:
  assumes "sent_size s \<le> length (probabilities s)"
  shows "url_email_detector_process_sentence detect entity_type_unknown bilou_type_U url email s =
     s\<lparr>probabilities :=
         map (\<lambda>i. if i < sent_size s \<and> detect (form (words s ! i)) \<noteq> NO_URL \<and>
                       \<not> local_filled (probabilities s ! i)
                    then \<lparr>local =
                            \<lparr>bilou =
                               (map (\<lambda>b. \<lparr>probability = 0, entity = entity_type_unknown\<rparr>)
                                  (bilou (local (probabilities s ! i))))
                               [bilou_type_U :=
                                  \<lparr>probability = 1,
                                   entity = (if detect (form (words s ! i)) = EMAIL then email
                                             else url)\<rparr>]\<rparr>,
                          local_filled = True\<rparr>
                    else probabilities s ! i)
           [0..<length (probabilities s)]\<rparr>"
  using url_email_detector_run_all [OF assms, of detect entity_type_unknown bilou_type_U url email]
  by (simp add: url_email_entry_def url_email_slots_def)

theorem url_email_detector_spec_witness:
  "sent_size (sentence_of_forms [''hello'', ''x@y.z'', ''world'']) \<le>
     length (probabilities (sentence_of_forms [''hello'', ''x@y.z'', ''world''])) \<and>
   probabilities (url_email_detector_process_sentence email_detect (- 1) 4 7 8
                    (sentence_of_forms [''hello'', ''x@y.z'', ''world''])) =
     [\<lparr>local = \<lparr>bilou = replicate 5 \<lparr>probability = 0, entity = - 1\<rparr>\<rparr>, local_filled = False\<rparr>,
      \<lparr>local = \<lparr>bilou = replicate 4 \<lparr>probability = 0, entity = - 1\<rparr> @
                           [\<lparr>probability = 1, entity = 8\<rparr>]\<rparr>, local_filled = True\<rparr>,
      \<lparr>local = \<lparr>bilou = replicate 5 \<lparr>probability = 0, entity = - 1\<rparr>\<rparr>, local_filled = False\<rparr>] \<and>
   features (url_email_detector_process_sentence email_detect (- 1) 4 7 8
               (sentence_of_forms [''hello'', ''x@y.z'', ''world''])) = [[], [], []]"
proof -
  have h: "sent_size (sentence_of_forms [''hello'', ''x@y.z'', ''world'']) \<le>
     length (probabilities (sentence_of_forms [''hello'', ''x@y.z'', ''world'']))"
    by (simp add: sentence_of_forms_def)
  have u: "[0..<3] = [0, 1, 2]" by (simp add: upt_rec)
  show ?thesis
    unfolding url_email_detector_spec [OF h, of email_detect "- 1" 4 7 8]
    by (simp add: sentence_of_forms_def word_of_form_def email_detect_def u numeral_eq_Suc)
qed

section \<open>Gazetteers: the feature ids reserved by parse\<close>




lemma gazetteers_tokens_nonempty:
  assumes "\<forall>token\<in>set (split line CHR '' ''). token \<noteq> [] \<longrightarrow> hd token \<noteq> CHR 0x00"
  shows "gazetteers_tokens split line = filter (\<lambda>token. token \<noteq> []) (split line CHR '' '')"
  unfolding gazetteers_tokens_def using assms
  by (intro filter_cong) (auto split: list.splits)



section \<open>PreviousStage: forward only\<close>

lemma fold_apply_in_range_fields [simp]:
  "sent_size (fold (\<lambda>(i, f) s. apply_in_range unk s (int i) f L R) es s) = sent_size s"
  "words (fold (\<lambda>(i, f) s. apply_in_range unk s (int i) f L R) es s) = words s"
  "previous_stage (fold (\<lambda>(i, f) s. apply_in_range unk s (int i) f L R) es s) = previous_stage s"
  "probabilities (fold (\<lambda>(i, f) s. apply_in_range unk s (int i) f L R) es s) = probabilities s"
  "length (features (fold (\<lambda>(i, f) s. apply_in_range unk s (int i) f L R) es s)) = length (features s)"
  by (induction es arbitrary: s; simp split: prod.splits)+

lemma fold_apply_in_range_features:
  assumes "sent_size s \<le> length (features s)" and "p < length (features s)"
  shows "features (fold (\<lambda>(i, f) s. apply_in_range unk s (int i) f L R) es s) ! p =
     features s ! p @
     concat (map (\<lambda>(i, f). if f \<noteq> unk \<and> max 0 (int i + L) \<le> int p \<and>
                                int p \<le> min (int (sent_size s) - 1) (int i + R)
                             then [f + word_of_int (int p - int i)] else []) es)"
  using assms
proof (induction es arbitrary: s)
  case Nil
  then show ?case by simp
next
  case (Cons e es)
  obtain i f where e: "e = (i, f)" by (cases e)
  let ?t = "apply_in_range unk s (int i) f L R"
  have "features (fold (\<lambda>(i, f) s. apply_in_range unk s (int i) f L R) es ?t) ! p =
     features ?t ! p @
     concat (map (\<lambda>(i, f). if f \<noteq> unk \<and> max 0 (int i + L) \<le> int p \<and>
                                int p \<le> min (int (sent_size ?t) - 1) (int i + R)
                             then [f + word_of_int (int p - int i)] else []) es)"
    using Cons.prems by (intro Cons.IH) simp_all
  then show ?case
    using Cons.prems by (simp add: e apply_in_range_features)
qed

lemma previous_stage_run:
  assumes "previous_stage t = previous_stage s"
  shows "fold (\<lambda>i (s, m).
             if ps_bilou (previous_stage s ! i) \<noteq> bu
             then (case lkp (previous_stage_key (previous_stage s ! i)) m of
                     (f, m') \<Rightarrow> (apply_in_range unk s (int i) f 1 window, m'))
             else (s, m)) is (t, m) =
     (case lookup_all lkp (map (\<lambda>i. previous_stage_key (previous_stage s ! i))
                            (filter (\<lambda>i. ps_bilou (previous_stage s ! i) \<noteq> bu) is)) m of
        (fs, m') \<Rightarrow>
          (fold (\<lambda>(i, f) s. apply_in_range unk s (int i) f 1 window)
             (zip (filter (\<lambda>i. ps_bilou (previous_stage s ! i) \<noteq> bu) is) fs) t, m'))"
  using assms
proof (induction "is" arbitrary: t m)
  case Nil
  then show ?case by simp
next
  case (Cons i "is")
  show ?case
  proof (cases "ps_bilou (previous_stage s ! i) \<noteq> bu")
    case False
    then show ?thesis using Cons by simp
  next
    case True
    obtain f m1 where l: "lkp (previous_stage_key (previous_stage s ! i)) m = (f, m1)"
      by (cases "lkp (previous_stage_key (previous_stage s ! i)) m")
    have p: "previous_stage (apply_in_range unk t (int i) f 1 window) = previous_stage s"
      using Cons.prems by simp
    show ?thesis
      using True Cons.prems by (simp add: l Cons.IH [OF p] split: prod.splits)
  qed
qed


lemma previous_stage_emitted:
  "previous_stage_process_sentence bu lkp unk window s m =
     (case lookup_all lkp (map (\<lambda>i. previous_stage_key (previous_stage s ! i))
                            (filter (\<lambda>i. ps_bilou (previous_stage s ! i) \<noteq> bu) [0..<sent_size s])) m of
        (fs, m') \<Rightarrow>
          (fold (\<lambda>(i, f) s. apply_in_range unk s (int i) f 1 window)
             (zip (filter (\<lambda>i. ps_bilou (previous_stage s ! i) \<noteq> bu) [0..<sent_size s]) fs) s, m'))"
  unfolding previous_stage_process_sentence_def by (rule previous_stage_run) simp

lemma previous_stage_forward_aux:
  assumes "sent_size s \<le> length (features s)"
  shows "(case lookup_all lkp
            (map (\<lambda>i. previous_stage_key (previous_stage s ! i))
               (filter (\<lambda>i. ps_bilou (previous_stage s ! i) \<noteq> bu) [0..<sent_size s])) m of
      (fs, m') \<Rightarrow>
        snd (previous_stage_process_sentence bu lkp unk window s m) = m' \<and>
        length (features (fst (previous_stage_process_sentence bu lkp unk window s m))) =
          length (features s) \<and>
        (\<forall>p<length (features s).
           features (fst (previous_stage_process_sentence bu lkp unk window s m)) ! p =
             features s ! p @
             concat (map (\<lambda>(i, f). if f \<noteq> unk \<and> i < p \<and> p < sent_size s \<and> int p \<le> int i + window
                                     then [f + word_of_int (int p - int i)] else [])
                       (zip (filter (\<lambda>i. ps_bilou (previous_stage s ! i) \<noteq> bu) [0..<sent_size s])
                          fs))))"
proof -
  obtain fs m' where l: "lookup_all lkp
            (map (\<lambda>i. previous_stage_key (previous_stage s ! i))
               (filter (\<lambda>i. ps_bilou (previous_stage s ! i) \<noteq> bu) [0..<sent_size s])) m = (fs, m')"
    by (cases "lookup_all lkp
            (map (\<lambda>i. previous_stage_key (previous_stage s ! i))
               (filter (\<lambda>i. ps_bilou (previous_stage s ! i) \<noteq> bu) [0..<sent_size s])) m")
  have cond: "(max 0 (int i + 1) \<le> int p \<and> int p \<le> min (int (sent_size s) - 1) (int i + window)) =
      (i < p \<and> p < sent_size s \<and> int p \<le> int i + window)" for i p
    by auto
  have cond2: "(int i + 1 \<le> int p) = (i < p)" for i p
    by auto
  show ?thesis
    using assms
    by (simp add: l previous_stage_emitted fold_apply_in_range_features cond cond2)
qed


text \<open>
  Claim C7 (PreviousStage is forward-only). Let \<open>known\<close> be the tokens whose bilou is
  not the unknown one, in order, and \<open>fs\<close> the ids that the interner returns for their
  encoded keys. For every sentence whose feature vector covers its tokens,
  \<^verbatim>\<open>process_sentence\<close> appends to \<open>features[p]\<close> exactly the ids \<open>f + (p - i)\<close> of the
  known tokens \<open>i\<close> with \<open>i < p \<le> i + window\<close> and \<open>p < size\<close> (and a known feature
  \<open>f\<close>): nothing at a position \<open>p \<le> i\<close>, and nothing for a token whose bilou is
  unknown, which is not even looked up.
\<close>

theorem previous_stage_forward_only:
  assumes "sent_size s \<le> length (features s)"
  shows "(case lookup_all lkp
            (map (\<lambda>i. previous_stage_key (previous_stage s ! i))
               (filter (\<lambda>i. ps_bilou (previous_stage s ! i) \<noteq> bilou_type_unknown)
                  [0..<sent_size s])) m of
      (fs, m') \<Rightarrow>
        snd (previous_stage_process_sentence bilou_type_unknown lkp unk window s m) = m' \<and>
        length (features (fst (previous_stage_process_sentence bilou_type_unknown lkp unk window s m))) =
          length (features s) \<and>
        (\<forall>p<length (features s).
           features (fst (previous_stage_process_sentence bilou_type_unknown lkp unk window s m)) ! p =
             features s ! p @
             concat (map (\<lambda>(i, f). if f \<noteq> unk \<and> i < p \<and> p < sent_size s \<and> int p \<le> int i + window
                                     then [f + word_of_int (int p - int i)] else [])
                       (zip (filter (\<lambda>i. ps_bilou (previous_stage s ! i) \<noteq> bilou_type_unknown)
                               [0..<sent_size s])
                          fs))))"
  using assms by (rule previous_stage_forward_aux)

theorem previous_stage_forward_only_witness:
  "sent_size stage_sentence \<le> length (features stage_sentence) \<and>
   previous_stage_key \<lparr>ps_bilou = 0, ps_entity = 3\<rparr> = '' 3'' \<and>
   features (fst (previous_stage_process_sentence (- 1) (table_lookup [('' 3'', 100)] (- 1)) (- 1) 2
                    stage_sentence ())) ! 0 = [] \<and>
   features (fst (previous_stage_process_sentence (- 1) (table_lookup [('' 3'', 100)] (- 1)) (- 1) 2
                    stage_sentence ())) ! 1 = [] \<and>
   features (fst (previous_stage_process_sentence (- 1) (table_lookup [('' 3'', 100)] (- 1)) (- 1) 2
                    stage_sentence ())) ! 2 = [] \<and>
   features (fst (previous_stage_process_sentence (- 1) (table_lookup [('' 3'', 100)] (- 1)) (- 1) 2
                    stage_sentence ())) ! 3 = [101] \<and>
   features (fst (previous_stage_process_sentence (- 1) (table_lookup [('' 3'', 100)] (- 1)) (- 1) 2
                    stage_sentence ())) ! 4 = [102]"
proof -
  have h: "sent_size stage_sentence \<le> length (features stage_sentence)"
    by (simp add: stage_sentence_def sentence_of_forms_def)
  have key: "previous_stage_key \<lparr>ps_bilou = 0, ps_entity = 3\<rparr> = '' 3''"
    by (simp add: previous_stage_key_def append_encoded_def hex_digits.simps)
  have u: "[0..<5] = [0, 1, 2, 3, 4]" by (simp add: upt_rec)
  have sz: "sent_size stage_sentence = 5" "length (features stage_sentence) = 5"
    by (simp_all add: stage_sentence_def sentence_of_forms_def)
  have known: "filter (\<lambda>i. ps_bilou (previous_stage stage_sentence ! i) \<noteq> - 1) [0..<5] = [2]"
    unfolding u by (simp add: stage_sentence_def)
  have ps2: "previous_stage stage_sentence ! 2 = \<lparr>ps_bilou = 0, ps_entity = 3\<rparr>"
    by (simp add: stage_sentence_def)
  have fs: "features stage_sentence ! p = []" if "p < 5" for p
    using that by (simp add: stage_sentence_def sentence_of_forms_def nth_Cons' )
  note t = previous_stage_forward_only [OF h, where lkp = "table_lookup [('' 3'', 100)] (- 1)"
      and bilou_type_unknown = "- 1" and unk = "- 1" and window = 2 and m = "()"]
  have a: "\<forall>p<5. features (fst (previous_stage_process_sentence (- 1)
                 (table_lookup [('' 3'', 100)] (- 1)) (- 1) 2 stage_sentence ())) ! p =
             features stage_sentence ! p @
             (if 2 < p \<and> p < 5 \<and> int p \<le> 4 then [100 + word_of_int (int p - 2)] else [])"
    using t by (simp add: sz known ps2 key table_lookup_def)
  show ?thesis
    using h key a [rule_format, of 0] a [rule_format, of 1] a [rule_format, of 2]
      a [rule_format, of 3] a [rule_format, of 4]
    by (simp add: fs)
qed


section \<open>BrownClusters: the scenario\<close>

lemma brown_prefixes:
  "fold (brown_add_prefix window total_features ''110100'') [None, Some 4, Some 6] ([[]], []) =
     ([[total_features + word_of_int window,
        total_features + word_of_int (2 * window + 1) + word_of_int window]],
      [(''110100'', total_features + word_of_int window),
       (''1101'', total_features + word_of_int (2 * window + 1) + word_of_int window)])"
  by (simp add: brown_add_prefix_def emplace_def)

lemma brown_substrings_46:
  assumes "parse_int ''4'' = 4" "parse_int ''6'' = 6"
  shows "brown_substrings parse_int [''4'', ''6''] [None] = Some [None, Some 4, Some 6]"
  using assms by (simp add: Let_def)

lemma brown_parse_line_bank:
  assumes "split brown_line (CHR 0x09) = [''110100'', ''bank'']" and "m0 ''bank'' = None"
  shows "brown_parse_line split window total_features [None, Some 4, Some 6] brown_line
           \<lparr>ps_map = m0, ps_clusters = [], cluster_map = [], prefixes_map = []\<rparr> =
         (True, \<lparr>ps_map = m0(''bank'' \<mapsto> 0),
                 ps_clusters = [[total_features + word_of_int window,
                                 total_features + word_of_int (2 * window + 1) + word_of_int window]],
                 cluster_map = [(''110100'', 0)],
                 prefixes_map = [(''110100'', total_features + word_of_int window),
                   (''1101'', total_features + word_of_int (2 * window + 1) + word_of_int window)]\<rparr>)"
proof -
  define a where "a = total_features + word_of_int window"
  define b where "b = total_features + word_of_int (2 * window + 1) + word_of_int window"
  have pre: "fold (brown_add_prefix window total_features ''110100'') [None, Some 4, Some 6]
               ([[]], []) = ([[a, b]], [(''110100'', a), (''1101'', b)])"
    unfolding a_def b_def by (rule brown_prefixes)
  then have pre': "brown_add_prefix window total_features ''110100'' (Some 6)
       (brown_add_prefix window total_features ''110100'' (Some 4)
          (brown_add_prefix window total_features ''110100'' None ([[]], []))) =
       ([[a, b]], [(''110100'', a), (''1101'', b)])"
    by simp
  have "brown_parse_line split window total_features [None, Some 4, Some 6] brown_line
           \<lparr>ps_map = m0, ps_clusters = [], cluster_map = [], prefixes_map = []\<rparr> =
         (True, \<lparr>ps_map = m0(''bank'' \<mapsto> 0), ps_clusters = [[a, b]],
                 cluster_map = [(''110100'', 0)],
                 prefixes_map = [(''110100'', a), (''1101'', b)]\<rparr>)"
    using assms by (simp add: brown_parse_line_def Let_def pre')
  then show ?thesis unfolding a_def b_def .
qed

lemma brown_parse_scenario:
  assumes "base_parse window (bc_map this) total_features0 = (True, m0, total_features)"
    and "open_file path = Some [brown_line]"
    and "parse_int ''4'' = 4" and "parse_int ''6'' = 6"
    and "split brown_line (CHR 0x09) = [''110100'', ''bank'']"
    and "m0 ''bank'' = None"
  shows "brown_clusters_parse base_parse parse_int split open_file window [path, ''4'', ''6'']
           this total_features0 =
         (True,
          \<lparr>bc_map = m0(''bank'' \<mapsto> 0),
           clusters = [[total_features + word_of_int window,
                        total_features + word_of_int (2 * window + 1) + word_of_int window]]\<rparr>,
          total_features + word_of_int (2 * window + 1) * 2)"
proof -
  define a where "a = total_features + word_of_int window"
  define b where "b = total_features + word_of_int (2 * window + 1) + word_of_int window"
  define c where "c = total_features + word_of_int (2 * window + 1) * 2"
  have line: "brown_parse_line split window total_features [None, Some 4, Some 6] brown_line
           \<lparr>ps_map = m0, ps_clusters = [], cluster_map = [], prefixes_map = []\<rparr> =
         (True, \<lparr>ps_map = m0(''bank'' \<mapsto> 0), ps_clusters = [[a, b]],
                 cluster_map = [(''110100'', 0)],
                 prefixes_map = [(''110100'', a), (''1101'', b)]\<rparr>)"
    unfolding a_def b_def using assms(5,6) by (rule brown_parse_line_bank)
  have sub: "brown_substrings parse_int [''4'', ''6''] [None] = Some [None, Some 4, Some 6]"
    using assms(3,4) by (rule brown_substrings_46)
  have c: "total_features + word_of_int (2 * window + 1) * of_nat (length [(''110100'', a), (''1101'', b)]) = c"
    by (simp add: c_def)
  have "brown_clusters_parse base_parse parse_int split open_file window [path, ''4'', ''6'']
           this total_features0 = (True, \<lparr>bc_map = m0(''bank'' \<mapsto> 0), clusters = [[a, b]]\<rparr>, c)"
    using assms(1,2) c
    by (simp add: brown_clusters_parse_def Let_def sub line del: brown_substrings.simps)
  then show ?thesis unfolding a_def b_def c_def .
qed


lemma brown_word_bank:
  assumes "words t = words s" and "bc_map this ''bank'' = Some 0" and "clusters this ! 0 = [a, b]"
    and "raw_lemma (words s ! i) \<noteq> ''bank'' \<longrightarrow> bc_map this (raw_lemma (words s ! i)) = None"
  shows "brown_clusters_word this unk window i t =
     (if raw_lemma (words s ! i) = ''bank''
      then apply_in_window unk window (apply_in_window unk window t (int i) a) (int i) b else t)"
  using assms by (simp add: brown_clusters_word_def)

lemma brown_process_run:
  assumes "words t = words s" and "bc_map this ''bank'' = Some 0" and "clusters this ! 0 = [a, b]"
    and "\<forall>i\<in>set is. raw_lemma (words s ! i) \<noteq> ''bank'' \<longrightarrow>
           bc_map this (raw_lemma (words s ! i)) = None"
  shows "fold (brown_clusters_word this unk window) is t =
         fold (\<lambda>(i, f) s. apply_in_window unk window s (int i) f)
           (concat (map (\<lambda>i. if raw_lemma (words s ! i) = ''bank'' then [(i, a), (i, b)] else [])
                      is)) t"
  using assms
proof (induction "is" arbitrary: t)
  case Nil
  then show ?case by simp
next
  case (Cons i "is")
  have step: "brown_clusters_word this unk window i t =
     (if raw_lemma (words s ! i) = ''bank''
      then apply_in_window unk window (apply_in_window unk window t (int i) a) (int i) b else t)"
    using Cons.prems by (intro brown_word_bank) simp_all
  have rest: "\<forall>i\<in>set is. raw_lemma (words s ! i) \<noteq> ''bank'' \<longrightarrow>
                bc_map this (raw_lemma (words s ! i)) = None"
    using Cons.prems(4) by simp
  show ?case
  proof (cases "raw_lemma (words s ! i) = ''bank''")
    case True
    have w: "words (apply_in_window unk window (apply_in_window unk window t (int i) a) (int i) b) =
             words s"
      using Cons.prems(1) by simp
    show ?thesis
      using True by (simp add: step Cons.IH [OF w Cons.prems(2,3) rest])
  next
    case False
    then show ?thesis
      by (simp add: step Cons.IH [OF Cons.prems(1,2,3) rest])
  qed
qed

lemma brown_process_bank:
  assumes "bc_map this ''bank'' = Some 0" and "clusters this ! 0 = [a, b]"
    and "\<forall>i < sent_size s. raw_lemma (words s ! i) \<noteq> ''bank'' \<longrightarrow>
             bc_map this (raw_lemma (words s ! i)) = None"
  shows "brown_clusters_process_sentence this unk window s =
         fold (\<lambda>(i, f) s. apply_in_window unk window s (int i) f)
           (concat (map (\<lambda>i. if raw_lemma (words s ! i) = ''bank'' then [(i, a), (i, b)] else [])
                      [0..<sent_size s])) s"
  unfolding brown_clusters_process_sentence_def using assms
  by (intro brown_process_run) simp_all


text \<open>
  Claim C8. With the prefix lengths 4 and 6 after the file name, a cluster file whose one
  line maps the cluster \<open>110100\<close> to the form \<open>bank\<close>, and a table of the base class
  without \<open>bank\<close>: the loop over the prefix lengths interns the whole string and the
  prefix \<open>1101\<close> and skips the length 6, which is not below the length of the cluster;
  \<^verbatim>\<open>parse\<close> succeeds with the one cluster of these two features and reserves two
  bands; and \<^verbatim>\<open>process_sentence\<close> of the parsed processor emits both features in the
  window of every token whose raw lemma is \<open>bank\<close>, on a sentence whose other raw lemmas
  are not in the table.
\<close>

theorem brown_clusters_scenario:
  assumes "base_parse window (bc_map this) total_features0 = (True, m0, total_features)"
    and "open_file path = Some [brown_line]"
    and "parse_int ''4'' = 4" and "parse_int ''6'' = 6"
    and "split brown_line (CHR 0x09) = [''110100'', ''bank'']"
    and "m0 ''bank'' = None"
    and "\<forall>i < sent_size s. raw_lemma (words s ! i) \<noteq> ''bank'' \<longrightarrow>
           m0 (raw_lemma (words s ! i)) = None"
  shows "fold (brown_add_prefix window total_features ''110100'') [None, Some 4, Some 6] ([[]], []) =
           ([[total_features + word_of_int window,
              total_features + word_of_int (2 * window + 1) + word_of_int window]],
            [(''110100'', total_features + word_of_int window),
             (''1101'', total_features + word_of_int (2 * window + 1) + word_of_int window)]) \<and>
         brown_clusters_parse base_parse parse_int split open_file window [path, ''4'', ''6'']
             this total_features0 =
           (True,
            \<lparr>bc_map = m0(''bank'' \<mapsto> 0),
             clusters = [[total_features + word_of_int window,
                          total_features + word_of_int (2 * window + 1) + word_of_int window]]\<rparr>,
            total_features + word_of_int (2 * window + 1) * 2) \<and>
         brown_clusters_process_sentence
             (fst (snd (brown_clusters_parse base_parse parse_int split open_file window
                          [path, ''4'', ''6''] this total_features0))) unk window s =
           fold (\<lambda>(i, f) s. apply_in_window unk window s (int i) f)
             (concat (map (\<lambda>i. if raw_lemma (words s ! i) = ''bank''
                                then [(i, total_features + word_of_int window),
                                      (i, total_features + word_of_int (2 * window + 1) +
                                          word_of_int window)]
                                else [])
                        [0..<sent_size s])) s"
proof -
  note parse = brown_parse_scenario [where base_parse = base_parse and window = window
      and this = this and ?total_features0.0 = total_features0 and ?m0.0 = m0
      and total_features = total_features and open_file = open_file and path = path
      and parse_int = parse_int and split = split, OF assms(1-6)]
  have "brown_clusters_process_sentence
          \<lparr>bc_map = m0(''bank'' \<mapsto> 0),
           clusters = [[total_features + word_of_int window,
                        total_features + word_of_int (2 * window + 1) + word_of_int window]]\<rparr>
          unk window s =
        fold (\<lambda>(i, f) s. apply_in_window unk window s (int i) f)
          (concat (map (\<lambda>i. if raw_lemma (words s ! i) = ''bank''
                             then [(i, total_features + word_of_int window),
                                   (i, total_features + word_of_int (2 * window + 1) +
                                       word_of_int window)]
                             else [])
                     [0..<sent_size s])) s"
    using assms(7) by (intro brown_process_bank) simp_all
  then show ?thesis
    unfolding parse by (simp only: brown_prefixes fst_conv snd_conv simp_thms)
qed

theorem brown_clusters_scenario_witness:
  "brown_base_parse 1 (bc_map \<lparr>bc_map = Map.empty, clusters = []\<rparr>) 10 = (True, Map.empty, 10) \<and>
   brown_open_file ''clusters'' = Some [brown_line] \<and>
   brown_parse_int ''4'' = 4 \<and> brown_parse_int ''6'' = 6 \<and>
   brown_split brown_line (CHR 0x09) = [''110100'', ''bank''] \<and>
   brown_clusters_parse brown_base_parse brown_parse_int brown_split brown_open_file 1
       [''clusters'', ''4'', ''6''] \<lparr>bc_map = Map.empty, clusters = []\<rparr> 10 =
     (True, \<lparr>bc_map = [''bank'' \<mapsto> 0], clusters = [[11, 14]]\<rparr>, 16) \<and>
   features (brown_clusters_process_sentence
               (fst (snd (brown_clusters_parse brown_base_parse brown_parse_int brown_split
                            brown_open_file 1 [''clusters'', ''4'', ''6'']
                            \<lparr>bc_map = Map.empty, clusters = []\<rparr> 10)))
               (- 1) 1 (sentence_of_forms [''the'', ''bank''])) =
     [[10, 13], [11, 14]]"
proof -
  have h1: "brown_base_parse 1 (bc_map \<lparr>bc_map = Map.empty, clusters = []\<rparr>) 10 = (True, Map.empty, 10)"
    by (simp add: brown_base_parse_def)
  have h2: "brown_open_file ''clusters'' = Some [brown_line]"
    by (simp add: brown_open_file_def)
  have h3: "brown_parse_int ''4'' = 4" and h4: "brown_parse_int ''6'' = 6"
    by (simp_all add: brown_parse_int_def)
  have h5: "brown_split brown_line (CHR 0x09) = [''110100'', ''bank'']"
    by (simp add: brown_split_def)
  have h6: "(Map.empty :: string \<rightharpoonup> ner_feature) ''bank'' = None"
    by simp
  have h7: "\<forall>i < sent_size (sentence_of_forms [''the'', ''bank'']).
      raw_lemma (words (sentence_of_forms [''the'', ''bank'']) ! i) \<noteq> ''bank'' \<longrightarrow>
      (Map.empty :: string \<rightharpoonup> ner_feature)
        (raw_lemma (words (sentence_of_forms [''the'', ''bank'']) ! i)) = None"
    by simp
  note t = brown_clusters_scenario [where base_parse = brown_base_parse and window = 1
      and this = "\<lparr>bc_map = Map.empty, clusters = []\<rparr>" and ?total_features0.0 = 10
      and ?m0.0 = Map.empty and total_features = 10 and open_file = brown_open_file
      and path = "''clusters''" and parse_int = brown_parse_int and split = brown_split
      and s = "sentence_of_forms [''the'', ''bank'']" and unk = "- 1",
      OF h1 h2 h3 h4 h5 h6 h7]
  have u: "[0..<2] = [0, 1]" by (simp add: upt_rec)
  have p: "brown_clusters_parse brown_base_parse brown_parse_int brown_split brown_open_file 1
       [''clusters'', ''4'', ''6''] \<lparr>bc_map = Map.empty, clusters = []\<rparr> 10 =
     (True, \<lparr>bc_map = [''bank'' \<mapsto> 0], clusters = [[11, 14]]\<rparr>, 16)"
    using t [THEN conjunct2, THEN conjunct1] by simp
  have "features (brown_clusters_process_sentence
               (fst (snd (brown_clusters_parse brown_base_parse brown_parse_int brown_split
                            brown_open_file 1 [''clusters'', ''4'', ''6'']
                            \<lparr>bc_map = Map.empty, clusters = []\<rparr> 10)))
               (- 1) 1 (sentence_of_forms [''the'', ''bank''])) =
     [[10, 13], [11, 14]]"
    unfolding t [THEN conjunct2, THEN conjunct2]
    by (simp add: sentence_of_forms_def word_of_form_def u apply_in_window_def apply_in_range_def
          emplace_feature_def upto.simps)
  then show ?thesis
    using h1 h2 h3 h4 h5 p by simp
qed


section \<open>Band confinement\<close>


lemma in_band_mono: "C \<subseteq> D \<Longrightarrow> in_band w C y \<Longrightarrow> in_band w D y"
  unfolding in_band_def by blast

lemma band_mono: "C \<subseteq> D \<Longrightarrow> band_confined w C s t \<Longrightarrow> band_confined w D s t"
  unfolding band_confined_def using in_band_mono by blast

































end
